(* ===== verification/Lego_Prelude.thy ===== *)
theory Lego_Prelude
  imports Main "HOL-Library.Word" "HOL-Library.Multiset" "HOL-Library.Monad_Syntax"
begin

unbundle bit_operations_syntax

section \<open>Prelude: machine words, fatal errors, counted lists\<close>

text \<open>
  What every component of the development shares:
  \<^item> \<open>u64\<close> is the C type \<open>unsigned long\<close> / \<open>u64\<close> of x86-64, a \<open>64 word\<close>
    whose arithmetic wraps around;
  \<^item> \<open>'a option\<close> is the result of code that may reach \<open>BUG()\<close>, \<open>BUG_ON\<close> or
    \<open>panic()\<close>: \<open>None\<close> is the stopped kernel, while an ordinary C error code is a
    value;
  \<^item> the bit arithmetic of \<open>include/lego/log2.h\<close> and of
    \<open>arch/x86/include/asm/bitops.h\<close> (\<open>fls64\<close>, \<open>ilog2\<close>,
    \<open>rounddown_pow_of_two\<close>, \<open>is_power_of_2\<close>);
  \<^item> the interface \<open>counted_list\<close>: a linked list that the C code keeps beside an
    \<open>atomic_t\<close> counter, the shape of the LRU list, of the per-set eviction list, of
    the victim list and of the flush queue.
\<close>

type_synonym u64 = "64 word"

named_theorems word_facts \<open>transfer of word expressions to \<open>nat\<close>\<close>
named_theorems pc_defs \<open>definitions of the small processor-cache helpers\<close>

subsection \<open>Fatal checks\<close>

definition bug_on :: "bool \<Rightarrow> unit option" where
  "bug_on c = (if c then None else Some ())"

lemma bug_on_eq_Some [simp]: "bug_on c = Some u \<longleftrightarrow> \<not> c"
  by (simp add: bug_on_def)

lemma bug_on_simps [simp]: "bug_on False = Some ()" "bug_on True = None"
  by (simp_all add: bug_on_def)

lemma bind_bug_on_eq_Some [simp]:
  "(bug_on c \<bind> f) = Some y \<longleftrightarrow> \<not> c \<and> f () = Some y"
  by (simp add: bug_on_def)

lemmas bind_Some_iff = bind_eq_Some_conv

subsection \<open>Find last set bit, logarithms, powers of two\<close>

text \<open>
  \<open>bsrq\<close> scans the operand from its most significant bit; \<open>fls64\<close> returns the
  position plus one, and 0 for 0.
\<close>

fun fls_from :: "nat \<Rightarrow> u64 \<Rightarrow> nat" where
  "fls_from 0 x = 0"
| "fls_from (Suc n) x = (if bit x n then Suc n else fls_from n x)"

definition fls64 :: "u64 \<Rightarrow> nat" where
  "fls64 x = fls_from 64 x"

definition ilog2 :: "u64 \<Rightarrow> nat" where
  "ilog2 n = fls64 n - 1"

definition rounddown_pow_of_two :: "u64 \<Rightarrow> u64" where
  "rounddown_pow_of_two n = push_bit (fls64 n - 1) 1"

definition roundup_pow_of_two :: "u64 \<Rightarrow> u64" where
  "roundup_pow_of_two n = push_bit (fls64 (n - 1)) 1"

definition is_power_of_2 :: "u64 \<Rightarrow> bool" where
  "is_power_of_2 n \<longleftrightarrow> n \<noteq> 0 \<and> n AND (n - 1) = 0"

lemma fls_from_spec:
  "n \<le> 64 \<Longrightarrow> take_bit n x \<noteq> 0 \<Longrightarrow>
     0 < fls_from n x \<and> fls_from n x \<le> n \<and> bit x (fls_from n x - 1) \<and>
     (\<forall>i. fls_from n x \<le> i \<and> i < n \<longrightarrow> \<not> bit x i)"
proof (induction n)
  case 0
  then show ?case by simp
next
  case (Suc n)
  show ?case
  proof (cases "bit x n")
    case True
    then show ?thesis by auto
  next
    case False
    then have "take_bit (Suc n) x = take_bit n x"
      by (intro bit_eqI) (auto simp: bit_simps less_Suc_eq)
    with Suc False show ?thesis by (auto simp: less_Suc_eq)
  qed
qed

lemma fls64_bits:
  assumes "x \<noteq> 0"
  shows "0 < fls64 x" "fls64 x \<le> 64" "bit x (fls64 x - 1)" "\<And>i. fls64 x \<le> i \<Longrightarrow> \<not> bit x i"
proof -
  have "take_bit 64 x = x" by (rule bit_eqI) (auto simp: bit_simps)
  with assms have "take_bit 64 x \<noteq> 0" by simp
  with fls_from_spec [of 64 x] have a: "0 < fls64 x \<and> fls64 x \<le> 64 \<and> bit x (fls64 x - 1)"
    and b: "\<And>i. fls64 x \<le> i \<Longrightarrow> i < 64 \<Longrightarrow> \<not> bit x i"
    by (auto simp: fls64_def)
  from a show "0 < fls64 x" "fls64 x \<le> 64" "bit x (fls64 x - 1)" by auto
  show "\<not> bit x i" if "fls64 x \<le> i" for i
    using b [OF that] bit_imp_le_length [of x i] by (cases "i < 64") auto
qed

lemma fls64_bounds:
  assumes "x \<noteq> 0"
  shows "2 ^ (fls64 x - 1) \<le> unat x" "unat x < 2 ^ fls64 x"
proof -
  have "take_bit (fls64 x) x = x"
    using fls64_bits(4) [OF assms] by (intro bit_eqI) (auto simp: bit_simps not_le [symmetric])
  then have "take_bit (fls64 x) (unat x) = unat x"
    by (metis unsigned_take_bit_eq)
  then show "unat x < 2 ^ fls64 x"
    by (metis take_bit_nat_less_exp)
  have "bit (unat x) (fls64 x - 1)"
    using fls64_bits(3) [OF assms] by (simp add: bit_unsigned_iff)
  then have "odd (unat x div 2 ^ (fls64 x - 1))"
    by (simp add: bit_iff_odd)
  then have "unat x div 2 ^ (fls64 x - 1) \<noteq> 0"
    by (metis dvd_0_right)
  then show "2 ^ (fls64 x - 1) \<le> unat x"
    by (meson div_less linorder_not_le)
qed

lemma unat_two_power [word_facts]: "n < 64 \<Longrightarrow> unat ((2::u64) ^ n) = 2 ^ n"
proof (induction n)
  case 0
  then show ?case by simp
next
  case (Suc n)
  then have "unat (2::u64) * unat ((2::u64) ^ n) = 2 ^ Suc n" by simp
  moreover have "(2::nat) ^ Suc n < 2 ^ 64"
    by (rule power_strict_increasing [OF Suc.prems]) simp
  ultimately show ?case using unat_mult_lem [of "2::u64" "2 ^ n"] by simp
qed

lemma unat_rounddown_pow_of_two:
  assumes "x \<noteq> 0"
  shows "unat (rounddown_pow_of_two x) = 2 ^ (fls64 x - 1)"
  using fls64_bits(1,2) [OF assms]
  by (simp add: rounddown_pow_of_two_def push_bit_of_1 unat_two_power)

lemma rounddown_pow_of_two_le:
  assumes "x \<noteq> 0"
  shows "unat (rounddown_pow_of_two x) \<le> unat x"
    and "unat x < 2 * unat (rounddown_pow_of_two x)"
proof -
  from fls64_bits(1) [OF assms] have "(2::nat) ^ fls64 x = 2 * 2 ^ (fls64 x - 1)"
    by (metis Suc_diff_1 power_Suc)
  with fls64_bounds [OF assms] show "unat (rounddown_pow_of_two x) \<le> unat x"
    and "unat x < 2 * unat (rounddown_pow_of_two x)"
    by (simp_all add: unat_rounddown_pow_of_two [OF assms])
qed

lemma fls64_unique:
  assumes "2 ^ n \<le> unat x" "unat x < 2 ^ Suc n"
  shows "fls64 x = Suc n"
proof -
  from assms(1) have nz: "x \<noteq> 0" by auto
  have "2 ^ (fls64 x - 1) < (2::nat) ^ Suc n"
    using fls64_bounds(1) [OF nz] assms(2) by linarith
  then have "fls64 x - 1 < Suc n"
    by (rule power_less_imp_less_exp [rotated]) simp
  moreover have "(2::nat) ^ n < 2 ^ fls64 x"
    using fls64_bounds(2) [OF nz] assms(1) by linarith
  then have "n < fls64 x" by simp
  ultimately show ?thesis using fls64_bits(1) [OF nz] by linarith
qed

lemma ilog2_exact: "unat x = 2 ^ n \<Longrightarrow> ilog2 x = n"
  by (simp add: ilog2_def fls64_unique [of n x])

subsection \<open>Words as natural numbers\<close>

lemma unat_add_no_wrap [word_facts]:
  fixes x y :: u64
  shows "unat x + unat y < 2 ^ 64 \<Longrightarrow> unat (x + y) = unat x + unat y"
  using unat_add_lem [of x y] by simp

lemma unat_mult_no_wrap [word_facts]:
  fixes x y :: u64
  shows "unat x * unat y < 2 ^ 64 \<Longrightarrow> unat (x * y) = unat x * unat y"
  using unat_mult_lem [of x y] by simp

lemma unat_mult_eqI:
  fixes x y :: u64
  shows "unat x = a \<Longrightarrow> unat y = b \<Longrightarrow> a * b < 2 ^ 64 \<Longrightarrow> unat (x * y) = a * b"
  using unat_mult_no_wrap [of x y] by simp

lemma unat_add_eqI:
  fixes x y :: u64
  shows "unat x = a \<Longrightarrow> unat y = b \<Longrightarrow> a + b < 2 ^ 64 \<Longrightarrow> unat (x + y) = a + b"
  using unat_add_no_wrap [of x y] by simp

lemma unat_sub_no_wrap [word_facts]:
  fixes x y :: u64
  shows "unat y \<le> unat x \<Longrightarrow> unat (x - y) = unat x - unat y"
  by (simp add: unat_sub word_le_nat_alt)

lemma unat_div_u64 [word_facts]: "unat ((x::u64) div y) = unat x div unat y"
  by (rule unat_div)

lemma unat_less_2p64: "unat (x::u64) < 2 ^ 64"
  using unsigned_less [of x] by simp

lemma unat_drop_bit_u64 [word_facts]: "unat (drop_bit n (x::u64)) = unat x div 2 ^ n"
  unfolding unsigned_drop_bit_eq
  by (simp add: take_bit_nat_eq_self [OF unat_less_2p64] drop_bit_eq_div [of n "unat x"])

lemma unat_take_bit_u64 [word_facts]: "unat (take_bit n (x::u64)) = unat x mod 2 ^ n"
  unfolding unsigned_take_bit_eq by (simp add: take_bit_eq_mod [of n "unat x"])

lemma push_bit_one_u64: "push_bit n (1::u64) = 2 ^ n"
  by (simp add: push_bit_of_1)

text \<open>Clearing the low bits of an address rounds it down to a multiple of \<open>2 ^ n\<close>.\<close>

lemma and_not_mask_eq: "(x::u64) AND NOT (2 ^ n - 1) = push_bit n (drop_bit n x)"
  by (rule bit_eqI) (auto simp: bit_simps simp flip: mask_eq_exp_minus_1)

lemma unat_and_not_mask [word_facts]:
  "unat ((x::u64) AND NOT (2 ^ n - 1)) = 2 ^ n * (unat x div 2 ^ n)"
proof -
  have "2 ^ n * (unat x div 2 ^ n) \<le> unat x" by (rule times_div_less_eq_dividend)
  also have "unat x < 2 ^ 64" using unsigned_less [of x] by simp
  finally have b: "2 ^ n * (unat x div 2 ^ n) < 2 ^ 64" .
  have "unat (push_bit n (drop_bit n x)) = take_bit 64 (push_bit n (unat (drop_bit n x)))"
    by (simp only: unsigned_push_bit_eq) simp
  also have "\<dots> = take_bit 64 (2 ^ n * (unat x div 2 ^ n))"
    unfolding unat_drop_bit_u64 by (simp add: push_bit_eq_mult [of n "_ :: nat"] mult.commute)
  also have "\<dots> = 2 ^ n * (unat x div 2 ^ n)"
    by (rule take_bit_nat_eq_self [OF b])
  finally show ?thesis by (simp only: and_not_mask_eq)
qed

subsection \<open>Page constants\<close>

abbreviation (input) PAGE_SHIFT :: nat where "PAGE_SHIFT \<equiv> 12"

definition PAGE_SIZE :: u64 where "PAGE_SIZE = push_bit PAGE_SHIFT 1"

definition PAGE_MASK :: u64 where "PAGE_MASK = NOT (PAGE_SIZE - 1)"

lemma PAGE_SIZE_eq [simp]: "PAGE_SIZE = 4096"
  by (simp add: PAGE_SIZE_def push_bit_of_1)

lemma PAGE_MASK_eq: "PAGE_MASK = NOT (2 ^ 12 - 1)"
  by (simp add: PAGE_MASK_def)

lemma unat_page_align: "unat (a AND PAGE_MASK) = 4096 * (unat a div 4096)"
  using unat_and_not_mask [of a 12] by (simp add: PAGE_MASK_eq)

subsection \<open>A linked list with an atomic counter\<close>

text \<open>
  The contract of every list the kernel pairs with an \<open>atomic_t\<close>: adding an entry
  increments the counter and adds exactly that entry, deleting a listed entry decrements it
  and removes exactly one occurrence. Whoever calls only these two operations, on entries
  that are listed when deleted, may read the counter instead of walking the list.
\<close>

datatype 'a list_op = Ins 'a | Del 'a

text \<open>Deletions of listed entries only, and the entries that are left at the end.\<close>

fun legal :: "'a list_op list \<Rightarrow> 'a multiset \<Rightarrow> bool" where
  "legal [] m = True"
| "legal (Ins x # ops) m = legal ops (add_mset x m)"
| "legal (Del x # ops) m = (x \<in># m \<and> legal ops (m - {#x#}))"

fun outcome :: "'a list_op list \<Rightarrow> 'a multiset \<Rightarrow> 'a multiset" where
  "outcome [] m = m"
| "outcome (Ins x # ops) m = outcome ops (add_mset x m)"
| "outcome (Del x # ops) m = outcome ops (m - {#x#})"

locale counted_list =
  fixes lst :: "'s \<Rightarrow> 'a list"
    and cnt :: "'s \<Rightarrow> int"
    and ins :: "'a \<Rightarrow> 's \<Rightarrow> 's"
    and del :: "'a \<Rightarrow> 's \<Rightarrow> 's"
  assumes mset_ins: "mset (lst (ins x s)) = add_mset x (mset (lst s))"
    and cnt_ins: "cnt (ins x s) = cnt s + 1"
    and mset_del: "mset (lst (del x s)) = mset (lst s) - {#x#}"
    and cnt_del: "cnt (del x s) = cnt s - 1"
begin

fun run :: "'a list_op list \<Rightarrow> 's \<Rightarrow> 's" where
  "run [] s = s"
| "run (Ins x # ops) s = run ops (ins x s)"
| "run (Del x # ops) s = run ops (del x s)"

definition agree :: "'s \<Rightarrow> bool" where
  "agree s \<longleftrightarrow> cnt s = int (length (lst s))"

lemma length_ins: "length (lst (ins x s)) = Suc (length (lst s))"
  using arg_cong [OF mset_ins, of size] by simp

lemma length_del:
  assumes "x \<in> set (lst s)"
  shows "length (lst (del x s)) = length (lst s) - 1"
proof -
  have "size (mset (lst (del x s))) = size (mset (lst s) - {#x#})"
    by (simp only: mset_del)
  also have "\<dots> = size (mset (lst s)) - 1"
    using assms by (simp add: size_Diff_singleton)
  finally show ?thesis by simp
qed

lemma set_ins: "set (lst (ins x s)) = insert x (set (lst s))"
  using arg_cong [OF mset_ins, of set_mset] by simp

lemma agree_ins: "agree s \<Longrightarrow> agree (ins x s)"
  by (simp add: agree_def cnt_ins length_ins)

lemma agree_del: "agree s \<Longrightarrow> x \<in> set (lst s) \<Longrightarrow> agree (del x s)"
  by (cases "lst s") (auto simp: agree_def cnt_del length_del)

lemma agree_run: "legal ops (mset (lst s)) \<Longrightarrow> agree s \<Longrightarrow> agree (run ops s)"
  by (induction ops s rule: run.induct) (auto simp: agree_ins agree_del mset_ins mset_del)

lemma mset_run: "mset (lst (run ops s)) = outcome ops (mset (lst s))"
  by (induction ops s rule: run.induct) (simp_all add: mset_ins mset_del)

lemma counter_zero_iff: "agree s \<Longrightarrow> cnt s = 0 \<longleftrightarrow> lst s = []"
  by (simp add: agree_def)

end

end
