(* ===== verification/X86_Pte.thy ===== *)
theory X86_Pte
  imports Lego_Prelude
begin

section \<open>Page table entries\<close>

text \<open>
  The 64-bit page table entry of \<open>arch/x86/include/asm/pgtable_types.h\<close> and
  \<open>pgtable.h\<close>: the flag bits the processor cache uses, the frame number in bits 12 to
  45, and the accessors. A \<open>pte_t\<close> is its \<open>u64\<close> value. The C predicates return
  the masked flag as an \<open>int\<close>; the model returns whether it is non-zero (every flag they
  test lies below bit 31, so the narrowing loses nothing).
\<close>

type_synonym pte = u64

abbreviation (input) PAGE_BIT_PRESENT :: nat where "PAGE_BIT_PRESENT \<equiv> 0"
abbreviation (input) PAGE_BIT_RW :: nat where "PAGE_BIT_RW \<equiv> 1"
abbreviation (input) PAGE_BIT_USER :: nat where "PAGE_BIT_USER \<equiv> 2"
abbreviation (input) PAGE_BIT_ACCESSED :: nat where "PAGE_BIT_ACCESSED \<equiv> 5"
abbreviation (input) PAGE_BIT_DIRTY :: nat where "PAGE_BIT_DIRTY \<equiv> 6"
abbreviation (input) PAGE_BIT_GLOBAL :: nat where "PAGE_BIT_GLOBAL \<equiv> 8"
abbreviation (input) PAGE_BIT_ZEROFILL :: nat where "PAGE_BIT_ZEROFILL \<equiv> 10"

definition PAGE_PRESENT :: u64 where "PAGE_PRESENT = push_bit PAGE_BIT_PRESENT 1"
definition PAGE_RW :: u64 where "PAGE_RW = push_bit PAGE_BIT_RW 1"
definition PAGE_USER :: u64 where "PAGE_USER = push_bit PAGE_BIT_USER 1"
definition PAGE_ACCESSED :: u64 where "PAGE_ACCESSED = push_bit PAGE_BIT_ACCESSED 1"
definition PAGE_DIRTY :: u64 where "PAGE_DIRTY = push_bit PAGE_BIT_DIRTY 1"
definition PAGE_PROTNONE :: u64 where "PAGE_PROTNONE = push_bit PAGE_BIT_GLOBAL 1"
definition PAGE_ZEROFILL :: u64 where "PAGE_ZEROFILL = push_bit PAGE_BIT_ZEROFILL 1"

definition PAGE_SHARED_EXEC :: u64 where
  "PAGE_SHARED_EXEC = PAGE_PRESENT OR PAGE_RW OR PAGE_USER OR PAGE_ACCESSED"

definition PTE_PFN_MASK :: u64 where
  "PTE_PFN_MASK = PAGE_MASK AND (push_bit 46 1 - 1)"

definition PTE_FLAGS_MASK :: u64 where
  "PTE_FLAGS_MASK = NOT PTE_PFN_MASK"

definition pte_flags :: "pte \<Rightarrow> u64" where
  "pte_flags p = p AND PTE_FLAGS_MASK"

definition pte_dirty :: "pte \<Rightarrow> bool" where
  "pte_dirty p \<longleftrightarrow> pte_flags p AND PAGE_DIRTY \<noteq> 0"

definition pte_young :: "pte \<Rightarrow> bool" where
  "pte_young p \<longleftrightarrow> pte_flags p AND PAGE_ACCESSED \<noteq> 0"

definition pte_write :: "pte \<Rightarrow> bool" where
  "pte_write p \<longleftrightarrow> pte_flags p AND PAGE_RW \<noteq> 0"

definition pte_zerofill :: "pte \<Rightarrow> bool" where
  "pte_zerofill p \<longleftrightarrow> pte_flags p AND PAGE_ZEROFILL \<noteq> 0"

definition pte_present :: "pte \<Rightarrow> bool" where
  "pte_present p \<longleftrightarrow> pte_flags p AND (PAGE_PRESENT OR PAGE_PROTNONE) \<noteq> 0"

definition pte_none :: "pte \<Rightarrow> bool" where
  "pte_none p \<longleftrightarrow> p AND NOT (PAGE_DIRTY OR PAGE_ACCESSED) = 0"

definition pte_pfn :: "pte \<Rightarrow> u64" where
  "pte_pfn p = drop_bit PAGE_SHIFT (p AND PTE_PFN_MASK)"

definition massage_pgprot :: "u64 \<Rightarrow> u64 \<Rightarrow> u64" where
  "massage_pgprot supported_pte_mask pgprot =
     (if pgprot AND PAGE_PRESENT \<noteq> 0 then pgprot AND supported_pte_mask else pgprot)"

definition pfn_pte :: "u64 \<Rightarrow> u64 \<Rightarrow> u64 \<Rightarrow> pte" where
  "pfn_pte supported_pte_mask page_nr pgprot =
     push_bit PAGE_SHIFT page_nr OR massage_pgprot supported_pte_mask pgprot"

definition pte_set_flags :: "pte \<Rightarrow> u64 \<Rightarrow> pte" where
  "pte_set_flags p fl = p OR fl"

definition pte_clear_flags :: "pte \<Rightarrow> u64 \<Rightarrow> pte" where
  "pte_clear_flags p fl = p AND NOT fl"

definition pte_mkclean :: "pte \<Rightarrow> pte" where
  "pte_mkclean p = pte_clear_flags p PAGE_DIRTY"

definition pte_mkold :: "pte \<Rightarrow> pte" where
  "pte_mkold p = pte_clear_flags p PAGE_ACCESSED"

definition pte_wrprotect :: "pte \<Rightarrow> pte" where
  "pte_wrprotect p = pte_clear_flags p PAGE_RW"

definition pte_mkdirty :: "pte \<Rightarrow> pte" where
  "pte_mkdirty p = pte_set_flags p PAGE_DIRTY"

definition pte_mkyoung :: "pte \<Rightarrow> pte" where
  "pte_mkyoung p = pte_set_flags p PAGE_ACCESSED"

definition pte_mkwrite :: "pte \<Rightarrow> pte" where
  "pte_mkwrite p = pte_set_flags p PAGE_RW"

definition pte_mkzerofill :: "pte \<Rightarrow> pte" where
  "pte_mkzerofill p = pte_set_flags p PAGE_ZEROFILL"

subsection \<open>Bits of an entry\<close>

lemmas page_flag_defs = PAGE_PRESENT_def PAGE_RW_def PAGE_USER_def PAGE_ACCESSED_def
  PAGE_DIRTY_def PAGE_PROTNONE_def PAGE_ZEROFILL_def

lemmas pte_update_defs = pte_set_flags_def pte_clear_flags_def pte_mkclean_def pte_mkold_def
  pte_wrprotect_def pte_mkdirty_def pte_mkyoung_def pte_mkwrite_def pte_mkzerofill_def

lemma bit_PTE_PFN_MASK: "bit PTE_PFN_MASK i \<longleftrightarrow> 12 \<le> i \<and> i < 46"
proof -
  have "PTE_PFN_MASK = NOT (mask 12) AND mask 46"
    by (simp add: PTE_PFN_MASK_def PAGE_MASK_eq push_bit_of_1 mask_eq_exp_minus_1)
  then have "bit PTE_PFN_MASK i = bit (NOT (mask 12) AND mask 46 :: u64) i" by simp
  then show ?thesis by (auto simp: bit_simps)
qed

lemma bit_pte_flags: "bit (pte_flags p) i \<longleftrightarrow> bit p i \<and> (i < 12 \<or> 46 \<le> i)"
  by (auto simp: pte_flags_def PTE_FLAGS_MASK_def bit_simps bit_PTE_PFN_MASK
      dest: bit_imp_le_length)

lemma and_flag_nonzero: "n < 64 \<Longrightarrow> (w::u64) AND push_bit n 1 \<noteq> 0 \<longleftrightarrow> bit w n"
  by (metis and_exp_eq_0_iff_not_bit push_bit_one_u64)

lemma pte_dirty_bit [simp]: "pte_dirty p = bit p 6"
  by (simp only: pte_dirty_def PAGE_DIRTY_def and_flag_nonzero bit_pte_flags) simp

lemma pte_young_bit [simp]: "pte_young p = bit p 5"
  by (simp only: pte_young_def PAGE_ACCESSED_def and_flag_nonzero bit_pte_flags) simp

lemma pte_write_bit [simp]: "pte_write p = bit p 1"
  by (simp only: pte_write_def PAGE_RW_def and_flag_nonzero bit_pte_flags) simp

lemma pte_zerofill_bit [simp]: "pte_zerofill p = bit p 10"
  by (simp only: pte_zerofill_def PAGE_ZEROFILL_def and_flag_nonzero bit_pte_flags) simp

lemma pte_present_bit [simp]: "pte_present p \<longleftrightarrow> bit p 0 \<or> bit p 8"
proof -
  have "pte_present p \<longleftrightarrow> pte_flags p AND PAGE_PRESENT \<noteq> 0 \<or> pte_flags p AND PAGE_PROTNONE \<noteq> 0"
    by (auto simp: pte_present_def bit.conj_disj_distrib or_eq_0_iff)
  then show ?thesis
    by (simp only: PAGE_PRESENT_def PAGE_PROTNONE_def and_flag_nonzero bit_pte_flags) simp
qed

lemma pte_none_zero [simp]: "pte_none 0"
  by (simp add: pte_none_def)

lemma bit_pte_pfn: "bit (pte_pfn p) i \<longleftrightarrow> i < 34 \<and> bit p (i + 12)"
  by (auto simp: pte_pfn_def bit_simps bit_PTE_PFN_MASK add.commute)

lemma bit_massage:
  "bit (massage_pgprot m pg) i \<Longrightarrow> bit pg i"
  by (auto simp: massage_pgprot_def bit_simps split: if_splits)

text \<open>
  Making an entry from a frame number below \<open>2 ^ 34\<close> and protection bits that leave the
  frame field alone keeps the frame number.
\<close>

lemma pte_pfn_pfn_pte:
  assumes pfn: "unat pfn < 2 ^ 34" and prot: "pg AND PTE_PFN_MASK = 0"
  shows "pte_pfn (pfn_pte m pfn pg) = pfn"
proof (rule bit_eqI)
  fix i
  have hi: "\<not> bit pfn i" if "34 \<le> i" for i
  proof -
    have "take_bit 34 (unat pfn) = unat pfn" using pfn by (simp add: take_bit_nat_eq_self)
    then have "bit (unat pfn) i \<Longrightarrow> i < 34" by (metis bit_take_bit_iff)
    with that show ?thesis by (auto simp: bit_unsigned_iff dest: bit_imp_le_length)
  qed
  have np: "\<not> bit (massage_pgprot m pg) (i + 12)" if "i < 34" for i
  proof
    assume "bit (massage_pgprot m pg) (i + 12)"
    then have "bit (pg AND PTE_PFN_MASK) (i + 12)"
      using that by (simp add: bit_simps bit_PTE_PFN_MASK bit_massage)
    with prot show False by simp
  qed
  show "bit (pte_pfn (pfn_pte m pfn pg)) i = bit pfn i"
  proof (cases "i < 34")
    case True
    with np [OF True] show ?thesis by (simp add: bit_pte_pfn pfn_pte_def bit_simps)
  next
    case False
    with hi [of i] show ?thesis by (simp add: bit_pte_pfn)
  qed
qed

text \<open>The flag updates never change the frame number.\<close>

lemma pte_pfn_flags_or: "fl AND PTE_PFN_MASK = 0 \<Longrightarrow> pte_pfn (p OR fl) = pte_pfn p"
  by (simp add: pte_pfn_def bit.conj_disj_distrib2)

lemma pte_pfn_flags_and: "fl AND PTE_PFN_MASK = 0 \<Longrightarrow> pte_pfn (p AND NOT fl) = pte_pfn p"
proof -
  assume fl: "fl AND PTE_PFN_MASK = 0"
  have b: "\<not> bit fl (i + 12)" if "i < 34" for i
  proof
    assume "bit fl (i + 12)"
    then have "bit (fl AND PTE_PFN_MASK) (i + 12)"
      using that by (simp add: bit_simps bit_PTE_PFN_MASK)
    with fl show False by simp
  qed
  show ?thesis
    by (rule bit_eqI) (auto simp: bit_pte_pfn bit_simps b)
qed

lemma flag_not_frame:
  "PAGE_DIRTY AND PTE_PFN_MASK = 0" "PAGE_RW AND PTE_PFN_MASK = 0" "PAGE_ACCESSED AND PTE_PFN_MASK = 0"
  by code_simp+

lemma bit_flag: "bit PAGE_DIRTY i \<longleftrightarrow> i = 6" "bit PAGE_RW i \<longleftrightarrow> i = 1" "bit PAGE_ACCESSED i \<longleftrightarrow> i = 5"
  by (simp_all only: page_flag_defs push_bit_one_u64 bit_exp_iff possible_bit_word) auto

lemma pte_update_pfn [simp]:
  "pte_pfn (pte_mkdirty v) = pte_pfn v" "pte_pfn (pte_mkwrite v) = pte_pfn v" "pte_pfn (pte_mkyoung v) = pte_pfn v"
  "pte_pfn (pte_mkold v) = pte_pfn v" "pte_pfn (pte_wrprotect v) = pte_pfn v" "pte_pfn (pte_mkclean v) = pte_pfn v"
  by (simp_all add: pte_update_defs pte_pfn_flags_or pte_pfn_flags_and flag_not_frame)

lemma bit_pte_update [simp]:
  "bit (pte_mkdirty v) i \<longleftrightarrow> bit v i \<or> i = 6" "bit (pte_mkwrite v) i \<longleftrightarrow> bit v i \<or> i = 1"
  "bit (pte_mkyoung v) i \<longleftrightarrow> bit v i \<or> i = 5"
  "bit (pte_mkold v) i \<longleftrightarrow> bit v i \<and> i \<noteq> 5" "bit (pte_wrprotect v) i \<longleftrightarrow> bit v i \<and> i \<noteq> 1"
  "bit (pte_mkclean v) i \<longleftrightarrow> bit v i \<and> i \<noteq> 6"
  by (auto simp: pte_update_defs bit_simps bit_flag dest: bit_imp_le_length)

end
