(* ===== verification/Pcache_Geometry.thy ===== *)
theory Pcache_Geometry
  imports X86_Pte
begin

section \<open>Geometry of the processor cache\<close>

text \<open>
  The set-associative DRAM cache of a processor component (\<open>pcache\<close>, ExCache in the
  paper): how \<open>managers/processor/pcache/init.c\<close> carves a registered physical range into
  cache lines and metadata, and how \<open>include/processor/pcache.h\<close> converts between user
  addresses, sets, ways, line metadata, physical and kernel virtual addresses.

  A pointer into the array \<open>pcache_meta_map\<close> (\<open>struct pcache_meta *\<close>) is its index, a
  \<open>nat\<close>; so is a pointer into \<open>pcache_set_map\<close>. Addresses are \<open>u64\<close>. The Kconfig
  choices (line size, associativity) and \<open>sizeof(struct pcache_meta)\<close> are the record
  \<open>pcache_config\<close>; the C globals are the record \<open>pcache_geom\<close>.
\<close>

record pcache_config =
  line_size_shift :: nat
  associativity_shift :: nat
  meta_size :: u64

record pcache_geom =
  pconfig :: pcache_config
  llc_cache_size :: u64
  nr_cachelines :: u64
  nr_cachesets :: u64
  nr_pages_cacheline :: u64
  nr_pages_metadata :: u64
  phys_start_cacheline :: u64
  phys_start_metadata :: u64
  nr_bits_cacheline :: nat
  nr_bits_set :: nat
  nr_bits_tag :: nat
  pcache_cacheline_mask :: u64
  pcache_set_mask :: u64
  pcache_tag_mask :: u64
  pcache_way_cache_stride :: u64
  virt_start_cacheline :: u64
  pcache_meta_map :: u64

definition PCACHE_LINE_SIZE :: "pcache_config \<Rightarrow> u64" where
  "PCACHE_LINE_SIZE c = push_bit (line_size_shift c) 1"

definition PCACHE_LINE_MASK :: "pcache_config \<Rightarrow> u64" where
  "PCACHE_LINE_MASK c = NOT (PCACHE_LINE_SIZE c - 1)"

definition PCACHE_ASSOCIATIVITY :: "pcache_config \<Rightarrow> u64" where
  "PCACHE_ASSOCIATIVITY c = push_bit (associativity_shift c) 1"

definition PCACHE_LINE_NR_PAGES :: "pcache_config \<Rightarrow> u64" where
  "PCACHE_LINE_NR_PAGES c = PCACHE_LINE_SIZE c div PAGE_SIZE"

subsection \<open>Registration and early initialisation\<close>

record pcache_registration =
  pcache_registered_start :: u64
  pcache_registered_size :: u64

definition EINVAL :: int where "EINVAL = 22"

definition offset_in_page :: "u64 \<Rightarrow> u64" where
  "offset_in_page p = p AND NOT PAGE_MASK"

definition pcache_range_register ::
  "u64 \<Rightarrow> u64 \<Rightarrow> pcache_registration \<Rightarrow> (int \<times> pcache_registration) option" where
  "pcache_range_register start sz r =
     (if start = 0 \<and> sz = 0 then Some (- EINVAL, r)
      else if offset_in_page start \<noteq> 0 \<or> offset_in_page sz \<noteq> 0 then Some (- EINVAL, r)
      else if pcache_registered_start r \<noteq> 0 \<or> pcache_registered_size r \<noteq> 0 then None
      else Some (0, r\<lparr>pcache_registered_start := start, pcache_registered_size := sz\<rparr>))"

definition unit_size :: "pcache_config \<Rightarrow> u64" where
  "unit_size c = (PAGE_SIZE div meta_size c) * PCACHE_LINE_SIZE c + PAGE_SIZE"

definition pcache_early_init :: "pcache_config \<Rightarrow> pcache_registration \<Rightarrow> pcache_geom option" where
  "pcache_early_init c r =
    (if pcache_registered_start r = 0 \<or> pcache_registered_size r = 0 then None
     else
       let nr_cachelines_per_page = PAGE_SIZE div meta_size c;
           us = unit_size c;
           nr_units = rounddown_pow_of_two (pcache_registered_size r div us);
           lines = nr_units * nr_cachelines_per_page;
           sets = lines div PCACHE_ASSOCIATIVITY c;
           pages = lines * PCACHE_LINE_NR_PAGES c;
           bl = ilog2 (PCACHE_LINE_SIZE c);
           bs = ilog2 sets;
           clmask = push_bit bl 1 - 1
       in Some \<lparr>pconfig = c,
            llc_cache_size = nr_units * us,
            nr_cachelines = lines,
            nr_cachesets = sets,
            nr_pages_cacheline = pages,
            nr_pages_metadata = nr_units,
            phys_start_cacheline = pcache_registered_start r,
            phys_start_metadata = pcache_registered_start r + pages * PAGE_SIZE,
            nr_bits_cacheline = bl,
            nr_bits_set = bs,
            nr_bits_tag = 64 - bl - bs,
            pcache_cacheline_mask = clmask,
            pcache_set_mask = (push_bit (bl + bs) 1 - 1) AND NOT clmask,
            pcache_tag_mask = NOT (push_bit (bl + bs) 1 - 1),
            pcache_way_cache_stride = sets * PCACHE_LINE_SIZE c,
            virt_start_cacheline = 0,
            pcache_meta_map = 0\<rparr>)"

text \<open>
  The address part of \<open>pcache_post_init\<close>: \<open>virt\<close> is where \<open>phys_to_virt\<close> or
  \<open>ioremap_cache\<close> has mapped the registered range, 0 when the mapping failed.
\<close>

definition pcache_post_init_map :: "u64 \<Rightarrow> pcache_geom \<Rightarrow> pcache_geom option" where
  "pcache_post_init_map virt g =
     (if virt = 0 then None
      else Some (g\<lparr>virt_start_cacheline := virt,
                   pcache_meta_map := virt + nr_pages_cacheline g * PAGE_SIZE\<rparr>))"

subsection \<open>Conversions\<close>

definition user_vaddr_to_set_index :: "pcache_geom \<Rightarrow> u64 \<Rightarrow> u64" where
  "user_vaddr_to_set_index g address =
     drop_bit (nr_bits_cacheline g) (address AND pcache_set_mask g)"

definition user_vaddr_to_pcache_set :: "pcache_geom \<Rightarrow> u64 \<Rightarrow> nat" where
  "user_vaddr_to_pcache_set g uvaddr = unat (user_vaddr_to_set_index g uvaddr)"

definition pa_is_pcache :: "pcache_geom \<Rightarrow> u64 \<Rightarrow> bool" where
  "pa_is_pcache g address \<longleftrightarrow>
     phys_start_cacheline g \<le> address \<and> address < phys_start_metadata g"

definition kva_is_pcache :: "pcache_geom \<Rightarrow> u64 \<Rightarrow> bool" where
  "kva_is_pcache g address \<longleftrightarrow>
     virt_start_cacheline g \<le> address \<and> address < pcache_meta_map g"

definition addr2meta :: "pcache_geom \<Rightarrow> u64 \<Rightarrow> nat" where
  "addr2meta g address = unat (user_vaddr_to_set_index g address)"

definition addr2line_va :: "pcache_geom \<Rightarrow> u64 \<Rightarrow> u64" where
  "addr2line_va g address = virt_start_cacheline g + (address AND pcache_set_mask g)"

definition addr2line_pa :: "pcache_geom \<Rightarrow> u64 \<Rightarrow> u64" where
  "addr2line_pa g address = phys_start_cacheline g + (address AND pcache_set_mask g)"

definition pcache_meta_index :: "pcache_geom \<Rightarrow> nat \<Rightarrow> nat option" where
  "pcache_meta_index g pcm = do {
     bug_on (unat (nr_cachelines g) \<le> pcm);
     Some pcm }"

definition pcache_meta_to_pcache_set :: "pcache_geom \<Rightarrow> nat \<Rightarrow> nat option" where
  "pcache_meta_to_pcache_set g pcm = do {
     bug_on (unat (nr_cachelines g) \<le> pcm);
     Some (pcm mod unat (nr_cachesets g)) }"

definition pcache_set_to_set_index :: "pcache_geom \<Rightarrow> nat \<Rightarrow> nat option" where
  "pcache_set_to_set_index g pset = do {
     bug_on (unat (nr_cachesets g) \<le> pset);
     Some pset }"

definition pcache_set_to_first_pcache_meta :: "pcache_geom \<Rightarrow> nat \<Rightarrow> nat option" where
  "pcache_set_to_first_pcache_meta g pset = do {
     bug_on (unat (nr_cachesets g) \<le> pset);
     Some pset }"

definition pcache_meta_to_pa :: "pcache_geom \<Rightarrow> nat \<Rightarrow> u64 option" where
  "pcache_meta_to_pa g pcm = do {
     bug_on (unat (nr_cachelines g) \<le> pcm);
     Some (phys_start_cacheline g + of_nat pcm * PCACHE_LINE_SIZE (pconfig g)) }"

definition pcache_meta_to_kva :: "pcache_geom \<Rightarrow> nat \<Rightarrow> u64 option" where
  "pcache_meta_to_kva g pcm = do {
     bug_on (unat (nr_cachelines g) \<le> pcm);
     Some (virt_start_cacheline g + of_nat pcm * PCACHE_LINE_SIZE (pconfig g)) }"

definition pa_to_pcache_meta :: "pcache_geom \<Rightarrow> u64 \<Rightarrow> nat option" where
  "pa_to_pcache_meta g address =
     (if pa_is_pcache g address
      then Some (unat (drop_bit (line_size_shift (pconfig g))
                   ((address AND PCACHE_LINE_MASK (pconfig g)) - phys_start_cacheline g)))
      else None)"

definition kva_to_pcache_meta :: "pcache_geom \<Rightarrow> u64 \<Rightarrow> nat option" where
  "kva_to_pcache_meta g address =
     (if kva_is_pcache g address
      then Some (unat (drop_bit (line_size_shift (pconfig g))
                   ((address AND PCACHE_LINE_MASK (pconfig g)) - virt_start_cacheline g)))
      else None)"

definition pfn_to_pcache_meta :: "pcache_geom \<Rightarrow> u64 \<Rightarrow> nat option" where
  "pfn_to_pcache_meta g pfn = pa_to_pcache_meta g (push_bit PAGE_SHIFT pfn)"

definition pte_to_pcache_meta :: "pcache_geom \<Rightarrow> pte \<Rightarrow> nat option" where
  "pte_to_pcache_meta g p = pa_to_pcache_meta g (p AND PTE_PFN_MASK)"

definition pa_to_pcache_set :: "pcache_geom \<Rightarrow> u64 \<Rightarrow> nat option option" where
  "pa_to_pcache_set g address =
     (case pa_to_pcache_meta g address of
        Some pcm \<Rightarrow> map_option Some (pcache_meta_to_pcache_set g pcm)
      | None \<Rightarrow> Some None)"

definition kva_to_pcache_set :: "pcache_geom \<Rightarrow> u64 \<Rightarrow> nat option option" where
  "kva_to_pcache_set g address =
     (case kva_to_pcache_meta g address of
        Some pcm \<Rightarrow> map_option Some (pcache_meta_to_pcache_set g pcm)
      | None \<Rightarrow> Some None)"

definition pcache_meta_to_pfn :: "pcache_geom \<Rightarrow> nat \<Rightarrow> u64 option" where
  "pcache_meta_to_pfn g pcm =
     map_option (drop_bit (line_size_shift (pconfig g))) (pcache_meta_to_pa g pcm)"

definition pcache_mk_pte :: "pcache_geom \<Rightarrow> u64 \<Rightarrow> nat \<Rightarrow> u64 \<Rightarrow> pte option" where
  "pcache_mk_pte g supported_pte_mask pcm pgprot =
     map_option (\<lambda>pfn. pfn_pte supported_pte_mask pfn pgprot) (pcache_meta_to_pfn g pcm)"

definition pcache_dup_pte_pgprot :: "pcache_geom \<Rightarrow> u64 \<Rightarrow> nat \<Rightarrow> pte \<Rightarrow> pte option" where
  "pcache_dup_pte_pgprot g supported_pte_mask pcm old_pte =
     pcache_mk_pte g supported_pte_mask pcm (pte_flags old_pte)"

definition pcache_meta_next_way_raw :: "pcache_geom \<Rightarrow> nat \<Rightarrow> nat" where
  "pcache_meta_next_way_raw g pcm = pcm + unat (nr_cachesets g)"

definition pcache_meta_to_way :: "pcache_geom \<Rightarrow> nat \<Rightarrow> nat option" where
  "pcache_meta_to_way g pcm = do {
     let way = pcm div unat (nr_cachesets g);
     bug_on (unat (PCACHE_ASSOCIATIVITY (pconfig g)) \<le> way);
     Some way }"

text \<open>The outer \<open>option\<close> is \<open>BUG_ON\<close>, the inner one the \<open>NULL\<close> pointer.\<close>

definition pcache_meta_next_way :: "pcache_geom \<Rightarrow> nat \<Rightarrow> nat option option" where
  "pcache_meta_next_way g pcm = do {
     bug_on (unat (nr_cachelines g) \<le> pcm);
     let way_idx = pcm div unat (nr_cachesets g);
     Some (if unat (PCACHE_ASSOCIATIVITY (pconfig g)) \<le> way_idx then None
           else Some (pcache_meta_next_way_raw g pcm)) }"

text \<open>The walk of \<open>pcache_for_each_way_set\<close>: the lines of a set, in way order.\<close>

primrec ways_from :: "pcache_geom \<Rightarrow> nat \<Rightarrow> nat \<Rightarrow> nat list" where
  "ways_from g pcm 0 = []"
| "ways_from g pcm (Suc n) = pcm # ways_from g (pcache_meta_next_way_raw g pcm) n"

definition pcache_ways_of_set :: "pcache_geom \<Rightarrow> nat \<Rightarrow> nat list option" where
  "pcache_ways_of_set g pset = do {
     pcm \<leftarrow> pcache_set_to_first_pcache_meta g pset;
     Some (ways_from g pcm (unat (PCACHE_ASSOCIATIVITY (pconfig g)))) }"


subsection \<open>Well-formed geometries\<close>

text \<open>
  What the conversions rely on: powers of two, masks of the right width, both arrays aligned
  and inside the 64-bit address space. \<open>geom_wf\<close> is about the physical side,
  \<open>geom_mapped\<close> adds the kernel mapping made by \<open>pcache_post_init\<close>.
\<close>

definition geom_wf :: "pcache_geom \<Rightarrow> bool" where
  "geom_wf g \<longleftrightarrow>
     12 \<le> line_size_shift (pconfig g) \<and>
     associativity_shift (pconfig g) < 64 \<and>
     line_size_shift (pconfig g) + nr_bits_set g < 64 \<and>
     nr_bits_cacheline g = line_size_shift (pconfig g) \<and>
     unat (nr_cachesets g) = 2 ^ nr_bits_set g \<and>
     unat (nr_cachelines g) = unat (nr_cachesets g) * 2 ^ associativity_shift (pconfig g) \<and>
     pcache_set_mask g = (push_bit (nr_bits_cacheline g + nr_bits_set g) 1 - 1)
                           AND NOT (push_bit (nr_bits_cacheline g) 1 - 1) \<and>
     2 ^ line_size_shift (pconfig g) dvd unat (phys_start_cacheline g) \<and>
     unat (phys_start_metadata g) =
       unat (phys_start_cacheline g) + unat (nr_cachelines g) * 2 ^ line_size_shift (pconfig g)"

definition geom_mapped :: "pcache_geom \<Rightarrow> bool" where
  "geom_mapped g \<longleftrightarrow> geom_wf g \<and>
     2 ^ line_size_shift (pconfig g) dvd unat (virt_start_cacheline g) \<and>
     unat (pcache_meta_map g) =
       unat (virt_start_cacheline g) + unat (nr_cachelines g) * 2 ^ line_size_shift (pconfig g)"

lemma geom_wf_sets_pos: "geom_wf g \<Longrightarrow> 0 < unat (nr_cachesets g)"
  by (simp add: geom_wf_def)

lemma unat_line_size: "geom_wf g \<Longrightarrow> unat (PCACHE_LINE_SIZE (pconfig g)) = 2 ^ line_size_shift (pconfig g)"
  by (simp add: geom_wf_def PCACHE_LINE_SIZE_def push_bit_of_1 unat_two_power)

lemma unat_associativity:
  "geom_wf g \<Longrightarrow> unat (PCACHE_ASSOCIATIVITY (pconfig g)) = 2 ^ associativity_shift (pconfig g)"
  by (simp add: geom_wf_def PCACHE_ASSOCIATIVITY_def push_bit_of_1 unat_two_power)

lemma line_mask_eq: "PCACHE_LINE_MASK c = NOT (2 ^ line_size_shift c - 1)"
  by (simp add: PCACHE_LINE_MASK_def PCACHE_LINE_SIZE_def push_bit_of_1)

text \<open>The arithmetic shared by the physical and the kernel virtual conversion.\<close>

lemma line_end_le: "i < n \<Longrightarrow> i * k + k \<le> n * (k :: nat)"
  using mult_le_mono1 [of "Suc i" n k] by simp

lemma unat_line_address:
  fixes base :: u64
  assumes "i < n" "unat base + n * 2 ^ L < 2 ^ 64" "off < 2 ^ L" "L < 64"
  shows "unat (base + of_nat i * 2 ^ L + of_nat off) = unat base + i * 2 ^ L + off"
proof -
  have "i * 2 ^ L + 2 ^ L \<le> n * 2 ^ L" by (rule line_end_le [OF assms(1)])
  then have lt: "unat base + i * 2 ^ L + off < 2 ^ 64" using assms(2,3) by simp
  have "i * 1 \<le> i * 2 ^ L" by (rule mult_le_mono2) simp
  with lt have "i < 2 ^ 64" and "off < 2 ^ 64" by linarith+
  then have ui: "unat (of_nat i :: u64) = i" and uo: "unat (of_nat off :: u64) = off"
    by (simp_all add: unsigned_of_nat take_bit_nat_eq_self_iff)
  have "unat (of_nat i * 2 ^ L :: u64) = i * 2 ^ L"
    using lt assms(4) by (subst unat_mult_no_wrap) (simp_all add: ui unat_two_power)
  then show ?thesis
    using lt by (simp add: unat_add_no_wrap uo)
qed

lemma line_decode:
  fixes base :: u64
  assumes al: "2 ^ L dvd unat base" and b: "i < n" "unat base + n * 2 ^ L < 2 ^ 64" "off < 2 ^ L" "L < 64"
    and a: "a = base + of_nat i * 2 ^ L + of_nat off"
  shows "unat (drop_bit L ((a AND NOT (2 ^ L - 1)) - base)) = i"
proof -
  obtain k where k: "unat base = 2 ^ L * k" using al by (auto elim: dvdE)
  have ua: "unat a = 2 ^ L * (k + i) + off"
    using unat_line_address [OF b] by (simp add: a k algebra_simps)
  have "unat a div 2 ^ L = k + i" using b(3) by (simp add: ua)
  then have "unat (a AND NOT (2 ^ L - 1)) = 2 ^ L * (k + i)" by (simp add: unat_and_not_mask)
  then have "unat ((a AND NOT (2 ^ L - 1)) - base) = 2 ^ L * i"
    by (subst unat_sub_no_wrap) (simp_all add: k algebra_simps)
  then show ?thesis by (simp add: unat_drop_bit_u64)
qed

subsection \<open>The line codec interface\<close>

text \<open>
  Both address spaces number their lines the same way. The contract of such a numbering:
  an in-range line has an address, and every byte address within the line decodes to it. From
  it follow injectivity and that distinct lines do not overlap.
\<close>

locale line_codec =
  fixes ok :: "'g \<Rightarrow> bool"
    and nlines :: "'g \<Rightarrow> nat"
    and lsize :: "'g \<Rightarrow> nat"
    and enc :: "'g \<Rightarrow> nat \<Rightarrow> u64 option"
    and dec :: "'g \<Rightarrow> u64 \<Rightarrow> nat option"
  assumes enc_range: "enc g i \<noteq> None \<longleftrightarrow> i < nlines g"
    and lsize_pos: "ok g \<Longrightarrow> 0 < lsize g"
    and dec_enc: "ok g \<Longrightarrow> enc g i = Some a \<Longrightarrow> off < lsize g \<Longrightarrow> dec g (a + of_nat off) = Some i"
begin

lemma dec_enc0:
  assumes "ok g" "enc g i = Some a"
  shows "dec g a = Some i"
  using dec_enc [OF assms lsize_pos [OF assms(1)]] by simp

lemma enc_inj:
  assumes "ok g" "enc g i = Some a" "enc g j = Some a"
  shows "i = j"
  using dec_enc0 [OF assms(1,2)] dec_enc0 [OF assms(1,3)] by simp

lemma lines_disjoint:
  assumes "ok g" "enc g i = Some a" "enc g j = Some b" "x < lsize g" "y < lsize g"
    and "a + of_nat x = b + of_nat y"
  shows "i = j"
  using dec_enc [OF assms(1,2,4)] dec_enc [OF assms(1,3,5)] assms(6) by simp

lemma enc_total: "ok g \<Longrightarrow> i < nlines g \<Longrightarrow> \<exists>a. enc g i = Some a \<and> dec g a = Some i"
  using enc_range [of g i] dec_enc0 [of g i] by auto

end

definition line_bytes :: "pcache_geom \<Rightarrow> nat" where
  "line_bytes g = 2 ^ line_size_shift (pconfig g)"

definition nr_lines :: "pcache_geom \<Rightarrow> nat" where
  "nr_lines g = unat (nr_cachelines g)"

lemma pcache_meta_to_pa_dec:
  assumes g: "geom_wf g" and e: "pcache_meta_to_pa g i = Some a" and o: "off < line_bytes g"
  shows "pa_to_pcache_meta g (a + of_nat off) = Some i"
proof -
  let ?L = "line_size_shift (pconfig g)"
  have i: "i < unat (nr_cachelines g)" and a: "a = phys_start_cacheline g + of_nat i * 2 ^ ?L"
    using e by (simp_all add: pcache_meta_to_pa_def PCACHE_LINE_SIZE_def push_bit_of_1)
  have m: "unat (phys_start_metadata g) = unat (phys_start_cacheline g) + unat (nr_cachelines g) * 2 ^ ?L"
    and al: "2 ^ ?L dvd unat (phys_start_cacheline g)" and L: "?L < 64"
    using g by (simp_all add: geom_wf_def)
  have lim: "unat (phys_start_cacheline g) + unat (nr_cachelines g) * 2 ^ ?L < 2 ^ 64"
    using m unat_less_2p64 [of "phys_start_metadata g"] by simp
  have o': "off < 2 ^ ?L" using o by (simp add: line_bytes_def)
  have ua: "unat (a + of_nat off) = unat (phys_start_cacheline g) + i * 2 ^ ?L + off"
    using unat_line_address [OF i lim o' L] by (simp add: a)
  have "i * 2 ^ ?L + 2 ^ ?L \<le> unat (nr_cachelines g) * 2 ^ ?L" by (rule line_end_le [OF i])
  then have "pa_is_pcache g (a + of_nat off)"
    using o' by (simp add: pa_is_pcache_def word_le_nat_alt word_less_nat_alt ua m)
  then show ?thesis
    using line_decode [OF al i lim o' L, of "a + of_nat off"]
    by (simp add: pa_to_pcache_meta_def line_mask_eq a)
qed

lemma pcache_meta_to_kva_dec:
  assumes g: "geom_mapped g" and e: "pcache_meta_to_kva g i = Some a" and o: "off < line_bytes g"
  shows "kva_to_pcache_meta g (a + of_nat off) = Some i"
proof -
  let ?L = "line_size_shift (pconfig g)"
  have i: "i < unat (nr_cachelines g)" and a: "a = virt_start_cacheline g + of_nat i * 2 ^ ?L"
    using e by (simp_all add: pcache_meta_to_kva_def PCACHE_LINE_SIZE_def push_bit_of_1)
  have m: "unat (pcache_meta_map g) = unat (virt_start_cacheline g) + unat (nr_cachelines g) * 2 ^ ?L"
    and al: "2 ^ ?L dvd unat (virt_start_cacheline g)" and L: "?L < 64"
    using g by (simp_all add: geom_mapped_def geom_wf_def)
  have lim: "unat (virt_start_cacheline g) + unat (nr_cachelines g) * 2 ^ ?L < 2 ^ 64"
    using m unat_less_2p64 [of "pcache_meta_map g"] by simp
  have o': "off < 2 ^ ?L" using o by (simp add: line_bytes_def)
  have ua: "unat (a + of_nat off) = unat (virt_start_cacheline g) + i * 2 ^ ?L + off"
    using unat_line_address [OF i lim o' L] by (simp add: a)
  have "i * 2 ^ ?L + 2 ^ ?L \<le> unat (nr_cachelines g) * 2 ^ ?L" by (rule line_end_le [OF i])
  then have "kva_is_pcache g (a + of_nat off)"
    using o' by (simp add: kva_is_pcache_def word_le_nat_alt word_less_nat_alt ua m)
  then show ?thesis
    using line_decode [OF al i lim o' L, of "a + of_nat off"]
    by (simp add: kva_to_pcache_meta_def line_mask_eq a)
qed

interpretation pa: line_codec geom_wf nr_lines line_bytes pcache_meta_to_pa pa_to_pcache_meta
proof
  show "pcache_meta_to_pa g i \<noteq> None \<longleftrightarrow> i < nr_lines g" for g i
    by (auto simp: pcache_meta_to_pa_def nr_lines_def bug_on_def)
qed (simp_all add: line_bytes_def pcache_meta_to_pa_dec)

interpretation kva: line_codec geom_mapped nr_lines line_bytes pcache_meta_to_kva kva_to_pcache_meta
proof
  show "pcache_meta_to_kva g i \<noteq> None \<longleftrightarrow> i < nr_lines g" for g i
    by (auto simp: pcache_meta_to_kva_def nr_lines_def bug_on_def)
qed (simp_all add: line_bytes_def pcache_meta_to_kva_dec)


subsection \<open>The layout computed at boot\<close>

text \<open>
  Configurations the arithmetic is meant for: a line is at least a page, the metadata of a
  line is a power of two of at most a page, the associativity is a 64-bit number, and one unit
  does not overflow. The Kconfig default (lines of 4 KiB, 64 ways) and the 128 bytes of
  \<open>struct pcache_meta\<close> are one, with \<open>k = 7\<close>.
\<close>

definition config_ok :: "pcache_config \<Rightarrow> nat \<Rightarrow> bool" where
  "config_ok c k \<longleftrightarrow> 12 \<le> line_size_shift c \<and> unat (meta_size c) = 2 ^ k \<and> k \<le> 12 \<and>
     associativity_shift c < 64 \<and> line_size_shift c + 12 < 63"

text \<open>
  A unit is a page of metadata with the lines it describes. The number of units that hold the
  lines of one whole set: one, unless a set has more ways than a page of metadata has entries.
\<close>

definition set_units :: "pcache_config \<Rightarrow> nat \<Rightarrow> nat" where
  "set_units c k = 2 ^ (associativity_shift c - (12 - k))"

lemma unat_4096_div: "k \<le> 12 \<Longrightarrow> (4096::nat) div 2 ^ k = 2 ^ (12 - k)"
  using power_diff [of "2::nat" k 12] by simp

lemma config_ok_sizes:
  assumes "config_ok c k"
  shows "unat (PCACHE_LINE_SIZE c) = 2 ^ line_size_shift c"
    and "unat (PAGE_SIZE div meta_size c) = 2 ^ (12 - k)"
    and "unat (PCACHE_ASSOCIATIVITY c) = 2 ^ associativity_shift c"
    and "unat (PCACHE_LINE_NR_PAGES c) = 2 ^ (line_size_shift c - 12)"
    and "unat (unit_size c) = 2 ^ (12 - k) * 2 ^ line_size_shift c + 4096"
proof -
  let ?L = "line_size_shift c"
  have L: "12 \<le> ?L" "?L + 12 < 63" and k: "k \<le> 12" "unat (meta_size c) = 2 ^ k"
    and A: "associativity_shift c < 64"
    using assms by (auto simp: config_ok_def)
  show ls: "unat (PCACHE_LINE_SIZE c) = 2 ^ ?L"
    using L by (simp add: PCACHE_LINE_SIZE_def push_bit_of_1 unat_two_power)
  show pp: "unat (PAGE_SIZE div meta_size c) = 2 ^ (12 - k)"
    by (simp add: unat_div_u64 k unat_4096_div)
  show "unat (PCACHE_ASSOCIATIVITY c) = 2 ^ associativity_shift c"
    using A by (simp add: PCACHE_ASSOCIATIVITY_def push_bit_of_1 unat_two_power)
  show "unat (PCACHE_LINE_NR_PAGES c) = 2 ^ (?L - 12)"
    using power_diff [of "2::nat" 12 ?L] L by (simp add: PCACHE_LINE_NR_PAGES_def unat_div_u64 ls)
  have "(2::nat) ^ (12 - k) * 2 ^ ?L = 2 ^ (12 - k + ?L)" by (simp add: power_add)
  also have "\<dots> < 2 ^ 63" by (rule power_strict_increasing) (use L in auto)
  finally have u: "(2::nat) ^ (12 - k) * 2 ^ ?L < 2 ^ 63" .
  then have m: "unat (PAGE_SIZE div meta_size c * PCACHE_LINE_SIZE c) = 2 ^ (12 - k) * 2 ^ ?L"
    by (intro unat_mult_eqI pp ls) simp
  show "unat (unit_size c) = 2 ^ (12 - k) * 2 ^ ?L + 4096"
    unfolding unit_size_def by (rule unat_add_eqI [OF m]) (use u in simp_all)
qed

lemma early_init_counts:
  fixes r :: pcache_registration and c :: pcache_config
  defines "N \<equiv> rounddown_pow_of_two (pcache_registered_size r div unit_size c)"
  assumes c: "config_ok c k" and sz: "unat (unit_size c) \<le> unat (pcache_registered_size r)"
  shows "\<exists>m. unat N = 2 ^ m"
    and "unat N * unat (unit_size c) \<le> unat (pcache_registered_size r)"
    and "unat (N * (PAGE_SIZE div meta_size c)) = unat N * 2 ^ (12 - k)"
    and "unat (N * (PAGE_SIZE div meta_size c) * PCACHE_LINE_NR_PAGES c * PAGE_SIZE) =
           unat N * 2 ^ (12 - k) * 2 ^ line_size_shift c"
    and "unat (N * unit_size c) = unat N * unat (unit_size c)"
proof -
  let ?q = "pcache_registered_size r div unit_size c" and ?L = "line_size_shift c"
  note cs = config_ok_sizes [OF c]
  have us: "0 < unat (unit_size c)" by (simp add: cs)
  have q: "unat ?q = unat (pcache_registered_size r) div unat (unit_size c)" by (rule unat_div_u64)
  have "0 < unat ?q" using us sz by (simp add: q div_greater_zero_iff)
  then have nz: "?q \<noteq> 0" by auto
  show "\<exists>m. unat N = 2 ^ m" using unat_rounddown_pow_of_two [OF nz] by (auto simp: N_def)
  have "unat N * unat (unit_size c) \<le> unat ?q * unat (unit_size c)"
    unfolding N_def by (rule mult_le_mono1 [OF rounddown_pow_of_two_le(1) [OF nz]])
  also have "\<dots> \<le> unat (pcache_registered_size r)" unfolding q by (rule div_times_less_eq_dividend)
  finally show b: "unat N * unat (unit_size c) \<le> unat (pcache_registered_size r)" .
  then have lt: "unat N * unat (unit_size c) < 2 ^ 64"
    using unat_less_2p64 [of "pcache_registered_size r"] by linarith
  then show "unat (N * unit_size c) = unat N * unat (unit_size c)" by (rule unat_mult_no_wrap)
  have L: "12 \<le> ?L" using c by (simp add: config_ok_def)
  have l12: "(2::nat) ^ (?L - 12) * 4096 = 2 ^ ?L"
    using power_add [of "2::nat" "?L - 12" 12] L by simp
  have a1: "unat N * 2 ^ (12 - k) * 2 ^ ?L \<le> unat N * unat (unit_size c)"
    unfolding cs by (simp add: mult.assoc)
  have "unat N * 2 ^ (12 - k) * 1 \<le> unat N * 2 ^ (12 - k) * 2 ^ ?L"
    by (rule mult_le_mono2) simp
  with a1 lt show n1: "unat (N * (PAGE_SIZE div meta_size c)) = unat N * 2 ^ (12 - k)"
    by (intro unat_mult_eqI cs refl) linarith
  have "unat N * 2 ^ (12 - k) * 2 ^ (?L - 12) \<le> unat N * 2 ^ (12 - k) * 2 ^ ?L"
    by (rule mult_le_mono2) (simp add: power_increasing)
  with a1 lt have n2: "unat (N * (PAGE_SIZE div meta_size c) * PCACHE_LINE_NR_PAGES c) =
      unat N * 2 ^ (12 - k) * 2 ^ (?L - 12)"
    by (intro unat_mult_eqI [OF n1] cs) linarith
  have n3: "unat N * 2 ^ (12 - k) * 2 ^ (?L - 12) * unat PAGE_SIZE = unat N * 2 ^ (12 - k) * 2 ^ ?L"
    by (simp add: l12 mult.assoc)
  show "unat (N * (PAGE_SIZE div meta_size c) * PCACHE_LINE_NR_PAGES c * PAGE_SIZE) =
           unat N * 2 ^ (12 - k) * 2 ^ ?L"
    using a1 lt unat_mult_eqI [OF n2 refl, of PAGE_SIZE] unfolding n3 by linarith
qed


text \<open>The units found in the range make up a whole set exactly when the units of one set fit.\<close>

lemma early_init_one_set:
  assumes c: "config_ok c k" and sz: "unat (unit_size c) \<le> unat (pcache_registered_size r)"
    and m: "unat (rounddown_pow_of_two (pcache_registered_size r div unit_size c)) = 2 ^ m"
  shows "set_units c k * unat (unit_size c) \<le> unat (pcache_registered_size r) \<longleftrightarrow> associativity_shift c \<le> m + (12 - k)"
proof -
  let ?q = "pcache_registered_size r div unit_size c" and ?d = "associativity_shift c - (12 - k)"
  have us: "0 < unat (unit_size c)" by (simp add: config_ok_sizes [OF c])
  have q: "unat ?q = unat (pcache_registered_size r) div unat (unit_size c)" by (rule unat_div_u64)
  have "0 < unat ?q" using us sz by (simp add: q div_greater_zero_iff)
  then have nz: "?q \<noteq> 0" by auto
  have b: "2 ^ m \<le> unat ?q" "unat ?q < 2 ^ Suc m" using rounddown_pow_of_two_le [OF nz] m by simp_all
  have "set_units c k * unat (unit_size c) \<le> unat (pcache_registered_size r) \<longleftrightarrow> 2 ^ ?d \<le> unat ?q"
    using us by (simp add: q set_units_def less_eq_div_iff_mult_less_eq)
  also have "\<dots> \<longleftrightarrow> ?d \<le> m"
  proof
    assume "2 ^ ?d \<le> unat ?q"
    then have "(2 :: nat) ^ ?d < 2 ^ Suc m" using b(2) by linarith
    then have "?d < Suc m" by (rule power_less_imp_less_exp [rotated]) simp
    then show "?d \<le> m" by simp
  next
    assume "?d \<le> m"
    then have "(2 :: nat) ^ ?d \<le> 2 ^ m" by (intro power_increasing) simp_all
    then show "2 ^ ?d \<le> unat ?q" using b(1) by linarith
  qed
  finally show ?thesis by auto
qed

lemma early_init_geom:
  assumes c: "config_ok c k"
    and r: "pcache_registered_start r \<noteq> 0" "unat (unit_size c) \<le> unat (pcache_registered_size r)"
      "unat (pcache_registered_start r) + unat (pcache_registered_size r) < 2 ^ 64"
      "2 ^ line_size_shift c dvd unat (pcache_registered_start r)"
  obtains g where "pcache_early_init c r = Some g" "pconfig g = c"
    "if set_units c k * unat (unit_size c) \<le> unat (pcache_registered_size r) then geom_wf g else nr_cachesets g = 0"
    "phys_start_cacheline g = pcache_registered_start r"
    "unat (phys_start_metadata g) + unat (nr_pages_metadata g) * 4096
       \<le> unat (pcache_registered_start r) + unat (pcache_registered_size r)"
    "unat (phys_start_metadata g) = unat (pcache_registered_start r) + unat (nr_cachelines g) * 2 ^ line_size_shift c"
    "unat (nr_cachelines g) * unat (meta_size c) = unat (nr_pages_metadata g) * 4096"
    "unat (nr_pages_cacheline g * PAGE_SIZE) = unat (nr_cachelines g) * 2 ^ line_size_shift c"
proof -
  let ?L = "line_size_shift c" and ?A = "associativity_shift c"
  define N where "N = rounddown_pow_of_two (pcache_registered_size r div unit_size c)"
  note cs = config_ok_sizes [OF c] and ec = early_init_counts [OF c r(2), folded N_def]
  have cc: "12 \<le> ?L" "unat (meta_size c) = 2 ^ k" "k \<le> 12" "?A < 64"
    using c by (auto simp: config_ok_def)
  obtain m where m: "unat N = 2 ^ m" using ec(1) by blast
  have sz0: "pcache_registered_size r \<noteq> 0" using r(2) cs(5) by auto
  let ?lines = "N * (PAGE_SIZE div meta_size c)"
  let ?sets = "?lines div PCACHE_ASSOCIATIVITY c"
  have lines: "unat ?lines = 2 ^ (m + (12 - k))" by (simp only: ec(3) m power_add)
  have enough: "set_units c k * unat (unit_size c) \<le> unat (pcache_registered_size r) \<longleftrightarrow> ?A \<le> m + (12 - k)"
    using early_init_one_set [OF c r(2)] m by (simp add: N_def)
  have sets: "unat ?sets = (if ?A \<le> m + (12 - k) then 2 ^ (m + (12 - k) - ?A) else 0)"
    by (simp only: unat_div_u64 lines cs(3)) (simp add: power_diff)
  have il: "ilog2 (PCACHE_LINE_SIZE c) = ?L" by (rule ilog2_exact) fact
  have fit: "unat N * 2 ^ (12 - k) * 2 ^ ?L + unat N * 4096 \<le> unat (pcache_registered_size r)"
    using ec(2) by (simp add: cs(5) algebra_simps)
  have "(2::nat) ^ (?L + (m + (12 - k) - ?A)) \<le> 2 ^ (m + (12 - k) + ?L)"
    by (rule power_increasing) auto
  also have "\<dots> \<le> unat (pcache_registered_size r)" using fit by (simp add: m power_add)
  also have "\<dots> < 2 ^ 64" by (rule unat_less_2p64)
  finally have bits: "?L + (m + (12 - k) - ?A) < 64"
    by (rule power_less_imp_less_exp [rotated]) simp
  have meta: "unat (pcache_registered_start r + ?lines * PCACHE_LINE_NR_PAGES c * PAGE_SIZE) =
      unat (pcache_registered_start r) + unat N * 2 ^ (12 - k) * 2 ^ ?L"
    by (rule unat_add_eqI [OF refl ec(4)]) (use fit r(3) in linarith)
  obtain g where g: "pcache_early_init c r = Some g" and
      f: "pconfig g = c" "nr_cachelines g = ?lines" "nr_cachesets g = ?sets"
        "nr_pages_cacheline g = ?lines * PCACHE_LINE_NR_PAGES c" "nr_pages_metadata g = N"
        "phys_start_cacheline g = pcache_registered_start r"
        "phys_start_metadata g = pcache_registered_start r + ?lines * PCACHE_LINE_NR_PAGES c * PAGE_SIZE"
        "nr_bits_cacheline g = ?L" "nr_bits_set g = ilog2 ?sets"
        "pcache_set_mask g = (push_bit (?L + ilog2 ?sets) 1 - 1) AND NOT (push_bit ?L 1 - 1)"
    using r(1) sz0 by (simp add: pcache_early_init_def Let_def il N_def [symmetric] del: PAGE_SIZE_eq)
  have "geom_wf g" if A: "?A \<le> m + (12 - k)"
  proof -
    have st: "unat ?sets = 2 ^ (m + (12 - k) - ?A)" using A sets by simp
    then have "ilog2 ?sets = m + (12 - k) - ?A" by (rule ilog2_exact)
    then show ?thesis unfolding geom_wf_def f using A cc(1,4) bits r(4)
      by (simp only: st lines meta m) (simp flip: power_add)
  qed
  moreover have "nr_cachesets g = 0" if "\<not> ?A \<le> m + (12 - k)"
    using sets that unfolding f(3) by (simp only: if_False unat_eq_0)
  ultimately have "if set_units c k * unat (unit_size c) \<le> unat (pcache_registered_size r) then geom_wf g else nr_cachesets g = 0"
    using enough by simp
  moreover have "unat (nr_cachelines g) * unat (meta_size c) = unat (nr_pages_metadata g) * 4096"
    using power_add [of "2::nat" "12 - k" k] cc(3) by (simp only: f ec(3) cc(2)) (simp add: mult.assoc)
  moreover have "unat (phys_start_metadata g) + unat (nr_pages_metadata g) * 4096
       \<le> unat (pcache_registered_start r) + unat (pcache_registered_size r)"
    using fit by (simp add: f meta del: PAGE_SIZE_eq)
  moreover have "unat (phys_start_metadata g) = unat (pcache_registered_start r) + unat (nr_cachelines g) * 2 ^ ?L"
    by (simp only: f meta ec(3))
  moreover have "unat (nr_pages_cacheline g * PAGE_SIZE) = unat (nr_cachelines g) * 2 ^ ?L"
    by (simp only: f ec(3,4))
  ultimately show ?thesis using that g f by blast
qed

lemma post_init_mapped:
  assumes "geom_wf g" "pcache_post_init_map virt g = Some g'"
    and "unat (nr_pages_cacheline g * PAGE_SIZE) = unat (nr_cachelines g) * 2 ^ line_size_shift (pconfig g)"
    and "2 ^ line_size_shift (pconfig g) dvd unat virt"
    and "unat virt + unat (nr_cachelines g) * 2 ^ line_size_shift (pconfig g) < 2 ^ 64"
  shows "geom_mapped g'"
proof -
  have g': "g' = g\<lparr>virt_start_cacheline := virt, pcache_meta_map := virt + nr_pages_cacheline g * PAGE_SIZE\<rparr>"
    using assms(2) by (simp add: pcache_post_init_map_def split: if_splits)
  have "unat (virt + nr_pages_cacheline g * PAGE_SIZE) =
      unat virt + unat (nr_cachelines g) * 2 ^ line_size_shift (pconfig g)"
    by (rule unat_add_eqI [OF refl assms(3) assms(5)])
  moreover have "geom_wf g'" using assms(1) unfolding g' geom_wf_def by simp
  ultimately show ?thesis using assms(4) by (simp add: geom_mapped_def g' del: PAGE_SIZE_eq)
qed

subsection \<open>Sets and ways\<close>

lemma unat_user_vaddr_to_set_index:
  assumes "geom_wf g"
  shows "unat (user_vaddr_to_set_index g a) = unat a div line_bytes g mod unat (nr_cachesets g)"
proof -
  let ?L = "line_size_shift (pconfig g)" and ?b = "nr_bits_set g"
  have "user_vaddr_to_set_index g a = take_bit ?b (drop_bit ?L a)"
    using assms unfolding user_vaddr_to_set_index_def geom_wf_def
    by (intro bit_eqI)
       (auto simp: bit_simps push_bit_of_1 simp flip: mask_eq_exp_minus_1)
  then show ?thesis
    using assms by (simp add: unat_take_bit_u64 unat_drop_bit_u64 geom_wf_def line_bytes_def)
qed

lemma ways_from_nth: "i < n \<Longrightarrow> ways_from g pcm n ! i = pcm + i * unat (nr_cachesets g)"
  by (induction n arbitrary: pcm i)
     (auto simp: nth_Cons pcache_meta_next_way_raw_def split: nat.splits)

lemma length_ways_from [simp]: "length (ways_from g pcm n) = n"
  by (induction n arbitrary: pcm) auto

lemma set_ways_from: "set (ways_from g pcm n) = {pcm + i * unat (nr_cachesets g) |i. i < n}"
  by (auto simp: set_conv_nth ways_from_nth) (metis ways_from_nth)

lemma ways_of_set_lines:
  assumes g: "geom_wf g" and s: "s < unat (nr_cachesets g)"
  shows "set (ways_from g s (unat (PCACHE_ASSOCIATIVITY (pconfig g)))) =
           {p. p < nr_lines g \<and> p mod unat (nr_cachesets g) = s}"
proof -
  let ?S = "unat (nr_cachesets g)" and ?W = "2 ^ associativity_shift (pconfig g)"
  have n: "nr_lines g = ?S * ?W" using g by (simp add: geom_wf_def nr_lines_def)
  have "\<exists>i<?W. p = s + i * ?S" if "p < ?S * ?W" "p mod ?S = s" for p
    using that less_mult_imp_div_less [of p ?W ?S]
    by (intro exI [of _ "p div ?S"]) (auto simp: mult.commute)
  moreover have "s + i * ?S < ?S * ?W" if "i < ?W" for i
    using line_end_le [OF that, of ?S] s by (simp add: mult.commute)
  ultimately show ?thesis
    using s by (auto simp: set_ways_from unat_associativity [OF g] n)
qed

lemma distinct_ways_from: "0 < unat (nr_cachesets g) \<Longrightarrow> distinct (ways_from g s n)"
  by (auto simp: distinct_conv_nth ways_from_nth)


subsection \<open>Page table entries of cache lines\<close>

text \<open>
  Page table entries hold the page frame in bits 12 to 45; lines below \<open>2 ^ 46\<close> survive the
  trip through one.
\<close>

lemma pte_frame_address: "p AND PTE_PFN_MASK = push_bit 12 (pte_pfn p)"
  by (rule bit_eqI) (auto simp: bit_simps bit_pte_pfn bit_PTE_PFN_MASK)

lemma pte_same_frame: "pte_pfn v' = pte_pfn v \<Longrightarrow> pte_to_pcache_meta g v' = pte_to_pcache_meta g v"
  by (simp add: pte_to_pcache_meta_def pte_frame_address)

lemma line_address_aligned:
  assumes "geom_wf g" "pcache_meta_to_pa g i = Some a"
  shows "2 ^ line_size_shift (pconfig g) dvd unat a"
proof -
  let ?L = "line_size_shift (pconfig g)"
  have i: "i < unat (nr_cachelines g)" and a: "a = phys_start_cacheline g + of_nat i * 2 ^ ?L"
    using assms(2) by (simp_all add: pcache_meta_to_pa_def PCACHE_LINE_SIZE_def push_bit_of_1)
  have "unat (phys_start_cacheline g) + unat (nr_cachelines g) * 2 ^ ?L < 2 ^ 64"
    using assms(1) unat_less_2p64 [of "phys_start_metadata g"] by (simp add: geom_wf_def)
  then have "unat a = unat (phys_start_cacheline g) + i * 2 ^ ?L"
    using unat_line_address [OF i, of "phys_start_cacheline g" ?L 0] assms(1) a
    by (simp add: geom_wf_def)
  then show ?thesis using assms(1) by (simp add: geom_wf_def)
qed

lemma pte_of_line:
  assumes g: "geom_wf g" "line_size_shift (pconfig g) = PAGE_SHIFT"
    and e: "pcache_mk_pte g spm i prot = Some p"
    and small: "unat (phys_start_metadata g) \<le> 2 ^ 46" and prot: "prot AND PTE_PFN_MASK = 0"
  shows "pte_to_pcache_meta g p = Some i"
proof -
  obtain a where a: "pcache_meta_to_pa g i = Some a"
    and p: "p = pfn_pte spm (drop_bit 12 a) prot"
    using e g(2) by (auto simp: pcache_mk_pte_def pcache_meta_to_pfn_def)
  have d: "pa_to_pcache_meta g a = Some i" by (rule pa.dec_enc0 [OF g(1) a])
  then have "a < phys_start_metadata g"
    by (auto simp: pa_to_pcache_meta_def pa_is_pcache_def split: if_splits)
  then have "unat a < 2 ^ 46" using small by (simp add: word_less_nat_alt)
  then have "unat (drop_bit 12 a) < 2 ^ 34" by (simp add: unat_drop_bit_u64 less_mult_imp_div_less)
  moreover have al: "unat (a AND NOT (2 ^ 12 - 1)) = unat a"
    using line_address_aligned [OF g(1) a] g(2)
    by (simp only: unat_and_not_mask dvd_mult_div_cancel)
  ultimately have "p AND PTE_PFN_MASK = push_bit 12 (drop_bit 12 a)"
    by (simp only: pte_frame_address p pte_pfn_pfn_pte [OF _ prot])
  also have "\<dots> = a"
    unfolding and_not_mask_eq [symmetric] by (rule unsigned_word_eqI [OF al])
  finally show ?thesis by (simp add: pte_to_pcache_meta_def d)
qed


text \<open>With larger lines the frame of an entry is not the address of the line.\<close>

lemma line_address_bounds:
  assumes "geom_wf g" "pcache_meta_to_pa g i = Some a"
  shows "unat (phys_start_cacheline g) \<le> unat a" "unat a < unat (phys_start_metadata g)"
  using pa.dec_enc0 [OF assms] by (auto simp: pa_to_pcache_meta_def pa_is_pcache_def word_le_nat_alt word_less_nat_alt split: if_splits)

lemma pte_of_large_line:
  assumes g: "geom_wf g" "PAGE_SHIFT < line_size_shift (pconfig g)" and a: "pcache_meta_to_pa g i = Some a"
    and e: "pcache_mk_pte g spm i prot = Some p"
    and small: "unat (phys_start_metadata g) \<le> 2 ^ 46" and prot: "prot AND PTE_PFN_MASK = 0"
  shows "unat (p AND PTE_PFN_MASK) = unat a div unat (PCACHE_LINE_NR_PAGES (pconfig g))"
    and "2 \<le> unat (PCACHE_LINE_NR_PAGES (pconfig g))"
proof -
  let ?L = "line_size_shift (pconfig g)"
  have L: "?L < 64" using g(1) by (simp add: geom_wf_def)
  have split: "(2 :: nat) ^ ?L = 2 ^ (?L - 12) * 4096" using power_add [of "2 :: nat" "?L - 12" 12] g(2) by simp
  have n: "unat (PCACHE_LINE_NR_PAGES (pconfig g)) = 2 ^ (?L - 12)"
    by (simp add: PCACHE_LINE_NR_PAGES_def unat_div_u64 unat_line_size [OF g(1)] split)
  show "2 \<le> unat (PCACHE_LINE_NR_PAGES (pconfig g))"
    unfolding n using power_increasing [of 1 "?L - 12" "2 :: nat"] g(2) by simp
  have p: "p = pfn_pte spm (drop_bit ?L a) prot" using e a by (auto simp: pcache_mk_pte_def pcache_meta_to_pfn_def)
  obtain q where q: "unat a = 2 ^ ?L * q" using line_address_aligned [OF g(1) a] by (auto elim: dvdE)
  have d: "unat (drop_bit ?L a) = q" by (simp add: unat_drop_bit_u64 q)
  have "2 ^ ?L * q < 2 ^ 46" using line_address_bounds(2) [OF g(1) a] small q by linarith
  moreover have "4096 * q \<le> 2 ^ ?L * q" using split by simp
  ultimately have lt: "4096 * q < 2 ^ 46" by linarith
  then have "unat (drop_bit ?L a) < 2 ^ 34" by (simp add: d)
  then have "p AND PTE_PFN_MASK = push_bit 12 (drop_bit ?L a)" by (simp only: pte_frame_address p pte_pfn_pfn_pte [OF _ prot])
  then have "unat (p AND PTE_PFN_MASK) = 4096 * q" using lt d
    by (simp add: push_bit_eq_mult unat_mult_no_wrap mult.commute)
  moreover have "unat a div 2 ^ (?L - 12) = 4096 * q" by (simp add: q split mult.assoc)
  ultimately show "unat (p AND PTE_PFN_MASK) = unat a div unat (PCACHE_LINE_NR_PAGES (pconfig g))" by (simp only: n)
qed

lemma pa_in_line:
  assumes g: "geom_wf g" and a: "pcache_meta_to_pa g i = Some a" and d: "pa_to_pcache_meta g x = Some i"
  shows "unat a \<le> unat x"
proof -
  let ?L = "line_size_shift (pconfig g)" and ?b = "phys_start_cacheline g"
  obtain k where k: "unat ?b = 2 ^ ?L * k" using g by (auto simp: geom_wf_def elim: dvdE)
  have i: "i < unat (nr_cachelines g)" and ad: "a = ?b + of_nat i * 2 ^ ?L"
    using a by (simp_all add: pcache_meta_to_pa_def PCACHE_LINE_SIZE_def push_bit_of_1)
  have "unat ?b + unat (nr_cachelines g) * 2 ^ ?L < 2 ^ 64" "?L < 64"
    using g unat_less_2p64 [of "phys_start_metadata g"] by (simp_all add: geom_wf_def)
  from unat_line_address [OF i this(1) _ this(2), of 0] have ua: "unat a = 2 ^ ?L * (k + i)" by (simp add: ad k algebra_simps)
  have x: "unat ?b \<le> unat x" and di: "unat (drop_bit ?L ((x AND NOT (2 ^ ?L - 1)) - ?b)) = i"
    using d by (auto simp: pa_to_pcache_meta_def pa_is_pcache_def line_mask_eq word_le_nat_alt split: if_splits)
  have "k \<le> unat x div 2 ^ ?L" using div_le_mono [OF x, of "2 ^ ?L"] by (simp add: k)
  moreover have m: "unat (x AND NOT (2 ^ ?L - 1)) = 2 ^ ?L * (unat x div 2 ^ ?L)" by (simp add: unat_and_not_mask)
  ultimately have "unat ((x AND NOT (2 ^ ?L - 1)) - ?b) = 2 ^ ?L * (unat x div 2 ^ ?L) - 2 ^ ?L * k"
    by (subst unat_sub_no_wrap) (simp_all add: k)
  then have "i = unat x div 2 ^ ?L - k" using di by (simp add: unat_drop_bit_u64 flip: diff_mult_distrib2)
  then have "k + i = unat x div 2 ^ ?L" using \<open>k \<le> unat x div 2 ^ ?L\<close> by simp
  then show ?thesis unfolding ua by simp
qed

subsection \<open>Main properties\<close>

definition demo_config :: pcache_config where
  "demo_config = \<lparr>line_size_shift = 12, associativity_shift = 6, meta_size = 128\<rparr>"

definition demo_registration :: pcache_registration where
  "demo_registration = \<lparr>pcache_registered_start = 0x100000000, pcache_registered_size = 0x1000000\<rparr>"

definition demo_geom :: pcache_geom where
  "demo_geom = \<lparr>pconfig = demo_config, llc_cache_size = 8650752, nr_cachelines = 2048,
     nr_cachesets = 32, nr_pages_cacheline = 2048, nr_pages_metadata = 64,
     phys_start_cacheline = 0x100000000, phys_start_metadata = 0x100800000,
     nr_bits_cacheline = 12, nr_bits_set = 5, nr_bits_tag = 47,
     pcache_cacheline_mask = 4095, pcache_set_mask = 0x1F000, pcache_tag_mask = NOT 0x1FFFF,
     pcache_way_cache_stride = 131072,
     virt_start_cacheline = 0xffff880100000000, pcache_meta_map = 0xffff880100800000\<rparr>"

lemmas demo_defs = demo_config_def demo_registration_def

lemmas config_macro_defs =
  PCACHE_LINE_SIZE_def PCACHE_ASSOCIATIVITY_def PCACHE_LINE_NR_PAGES_def unit_size_def

lemma fls64_demo: "fls64 124 = 7" "fls64 4096 = 13" "fls64 32 = 6"
  using fls64_unique [of 6 124] fls64_unique [of 12 4096] fls64_unique [of 5 32] by simp_all

lemma demo_geom_is_boot_layout:
  "(pcache_early_init demo_config demo_registration \<bind> pcache_post_init_map 0xffff880100000000)
     = Some demo_geom"
  by (simp add: pcache_early_init_def pcache_post_init_map_def Let_def demo_geom_def demo_defs
      config_macro_defs rounddown_pow_of_two_def ilog2_def fls64_demo)

lemma demo_config_ok: "config_ok demo_config 7"
  by (simp add: config_ok_def demo_config_def)

lemma demo_geom_wf: "geom_wf demo_geom"
  by (simp add: geom_wf_def demo_geom_def demo_defs)

lemma demo_geom_mapped: "geom_mapped demo_geom"
  unfolding geom_mapped_def using demo_geom_wf by (simp add: demo_geom_def demo_defs)

lemma demo_sizes [simp]:
  "nr_lines demo_geom = 2048" "line_bytes demo_geom = 4096" "nr_cachesets demo_geom = 32"
  "pconfig demo_geom = demo_config" "line_size_shift demo_config = 12"
  "PCACHE_ASSOCIATIVITY demo_config = 64" "phys_start_metadata demo_geom = 0x100800000"
  by (simp_all add: nr_lines_def line_bytes_def demo_geom_def demo_defs PCACHE_ASSOCIATIVITY_def)

text \<open>(C20) Boot layout. For a power-of-two metadata size of at most a page, lines of at least a page and
  any associativity (\<open>config_ok\<close>), and a registered range that is line aligned, does not wrap around and
  holds at least one unit (a page of metadata and the lines it describes), \<open>pcache_early_init\<close> succeeds: the
  line array starts at the registered address, the metadata array follows it immediately, has room for one entry
  per line, and ends within the registered range. If the range holds the units of one whole set, the
  geometry is well formed: the number of lines is the number of sets times the associativity and the masks
  select exactly the set bits. If not, as with one unit of 32 lines and the default of 64 ways, the
  code goes on with no set at all.\<close>

theorem pcache_early_init_layout:
  assumes "config_ok c k" "pcache_registered_start r \<noteq> 0"
    and "unat (unit_size c) \<le> unat (pcache_registered_size r)"
    and "unat (pcache_registered_start r) + unat (pcache_registered_size r) < 2 ^ 64"
    and "2 ^ line_size_shift c dvd unat (pcache_registered_start r)"
  shows "\<exists>g. pcache_early_init c r = Some g \<and> pconfig g = c \<and>
           phys_start_cacheline g = pcache_registered_start r \<and>
           unat (phys_start_metadata g) = unat (pcache_registered_start r) + unat (nr_cachelines g) * 2 ^ line_size_shift c \<and>
           unat (nr_cachelines g) * unat (meta_size c) = unat (nr_pages_metadata g) * 4096 \<and>
           unat (phys_start_metadata g) + unat (nr_pages_metadata g) * 4096
             \<le> unat (pcache_registered_start r) + unat (pcache_registered_size r) \<and>
           (if set_units c k * unat (unit_size c) \<le> unat (pcache_registered_size r) then geom_wf g
            else nr_cachesets g = 0)"
  by (rule early_init_geom [OF assms]) blast

theorem pcache_early_init_layout_witness:
  "(\<exists>g. pcache_early_init demo_config demo_registration = Some g \<and> geom_wf g) \<and>
   (\<exists>g. pcache_early_init demo_config (demo_registration\<lparr>pcache_registered_size := 0x21000\<rparr>) = Some g \<and> nr_cachesets g = 0)"
proof -
  let ?r = "demo_registration\<lparr>pcache_registered_size := 0x21000\<rparr>"
  have d: "pcache_registered_start demo_registration \<noteq> 0"
      "unat (unit_size demo_config) \<le> unat (pcache_registered_size demo_registration)"
      "unat (pcache_registered_start demo_registration) + unat (pcache_registered_size demo_registration) < 2 ^ 64"
      "2 ^ line_size_shift demo_config dvd unat (pcache_registered_start demo_registration)"
      "set_units demo_config 7 * unat (unit_size demo_config) \<le> unat (pcache_registered_size demo_registration)"
    by (simp_all add: demo_defs config_macro_defs set_units_def)
  have r: "pcache_registered_start ?r \<noteq> 0" "unat (unit_size demo_config) \<le> unat (pcache_registered_size ?r)"
      "unat (pcache_registered_start ?r) + unat (pcache_registered_size ?r) < 2 ^ 64"
      "2 ^ line_size_shift demo_config dvd unat (pcache_registered_start ?r)"
      "\<not> set_units demo_config 7 * unat (unit_size demo_config) \<le> unat (pcache_registered_size ?r)"
    by (simp_all add: demo_defs config_macro_defs set_units_def)
  from pcache_early_init_layout [OF demo_config_ok d(1-4)] d(5)
  have "\<exists>g. pcache_early_init demo_config demo_registration = Some g \<and> geom_wf g" by auto
  moreover from pcache_early_init_layout [OF demo_config_ok r(1-4)] r(5)
  have "\<exists>g. pcache_early_init demo_config ?r = Some g \<and> nr_cachesets g = 0" by auto
  ultimately show ?thesis ..
qed

text \<open>(C21) Physical addresses. Every byte of a line's physical address range converts back to
  that line and to no other, and any two lines that share a byte are the same line.\<close>

theorem pa_line_roundtrip:
  assumes "geom_wf g" "i < nr_lines g"
  shows "\<exists>a. pcache_meta_to_pa g i = Some a \<and>
           (\<forall>off < line_bytes g. pa_to_pcache_meta g (a + of_nat off) = Some i) \<and>
           (\<forall>j b x y. pcache_meta_to_pa g j = Some b \<and> x < line_bytes g \<and> y < line_bytes g \<and>
               a + of_nat x = b + of_nat y \<longrightarrow> i = j)"
proof -
  obtain a where a: "pcache_meta_to_pa g i = Some a" using pa.enc_total [OF assms] by blast
  then show ?thesis
    using pa.dec_enc [OF assms(1) a] pa.lines_disjoint [OF assms(1) a] by blast
qed

theorem pa_line_roundtrip_witness:
  "\<exists>a. pcache_meta_to_pa demo_geom 5 = Some a \<and> pa_to_pcache_meta demo_geom (a + of_nat 100) = Some 5"
proof -
  have "5 < nr_lines demo_geom" "100 < line_bytes demo_geom" by simp_all
  with pa_line_roundtrip [OF demo_geom_wf, of 5] show ?thesis by blast
qed

text \<open>(C22) Kernel addresses. The same for the kernel mapping set up by \<open>pcache_post_init\<close>.\<close>

theorem kva_line_roundtrip:
  assumes "geom_mapped g" "i < nr_lines g"
  shows "\<exists>a. pcache_meta_to_kva g i = Some a \<and>
           (\<forall>off < line_bytes g. kva_to_pcache_meta g (a + of_nat off) = Some i) \<and>
           (\<forall>j b x y. pcache_meta_to_kva g j = Some b \<and> x < line_bytes g \<and> y < line_bytes g \<and>
               a + of_nat x = b + of_nat y \<longrightarrow> i = j)"
proof -
  obtain a where a: "pcache_meta_to_kva g i = Some a" using kva.enc_total [OF assms] by blast
  then show ?thesis
    using kva.dec_enc [OF assms(1) a] kva.lines_disjoint [OF assms(1) a] by blast
qed

theorem kva_line_roundtrip_witness:
  "\<exists>a. pcache_meta_to_kva demo_geom 7 = Some a \<and> kva_to_pcache_meta demo_geom (a + of_nat 8) = Some 7"
proof -
  have "7 < nr_lines demo_geom" "8 < line_bytes demo_geom" by simp_all
  with kva_line_roundtrip [OF demo_geom_mapped, of 7] show ?thesis by blast
qed

text \<open>(C23) Page table entries. With lines of one page, a page table entry made for a line leads
  back to that line.\<close>

theorem pcache_mk_pte_roundtrip:
  assumes "geom_wf g" "line_size_shift (pconfig g) = PAGE_SHIFT" "i < nr_lines g"
    and "unat (phys_start_metadata g) \<le> 2 ^ 46" and "prot AND PTE_PFN_MASK = 0"
  shows "\<exists>p. pcache_mk_pte g spm i prot = Some p \<and> pte_to_pcache_meta g p = Some i"
proof -
  obtain a where "pcache_meta_to_pa g i = Some a" using pa.enc_total [OF assms(1,3)] by blast
  then obtain p where p: "pcache_mk_pte g spm i prot = Some p"
    by (simp add: pcache_mk_pte_def pcache_meta_to_pfn_def)
  with pte_of_line [OF assms(1,2) p assms(4,5)] show ?thesis by blast
qed

theorem pcache_mk_pte_roundtrip_witness:
  "\<exists>p. pcache_mk_pte demo_geom (NOT 0) 9 PAGE_SHARED_EXEC = Some p \<and> pte_to_pcache_meta demo_geom p = Some 9"
proof -
  have "PAGE_SHARED_EXEC AND PTE_PFN_MASK = 0" by code_simp
  then show ?thesis by (intro pcache_mk_pte_roundtrip [OF demo_geom_wf]) simp_all
qed

text \<open>(C25) Larger lines. With lines of more than one page the same code makes entries of the
  wrong frame, for every line and every well-formed layout that does not start at address 0:
  \<open>pcache_meta_to_pfn\<close> shifts by the line size while \<open>pfn_pte\<close> shifts back by the page size, so
  the entry holds the address of the line divided by the number of pages of a line. It never leads back to the
  line, and lies outside the cache altogether when the line array ends below twice its start address.\<close>

theorem pcache_mk_pte_large_lines:
  assumes "geom_wf g" "PAGE_SHIFT < line_size_shift (pconfig g)" "i < nr_lines g" "phys_start_cacheline g \<noteq> 0"
    and "unat (phys_start_metadata g) \<le> 2 ^ 46" and "prot AND PTE_PFN_MASK = 0"
  shows "\<exists>a p. pcache_meta_to_pa g i = Some a \<and> pcache_mk_pte g spm i prot = Some p \<and>
    unat (p AND PTE_PFN_MASK) = unat a div unat (PCACHE_LINE_NR_PAGES (pconfig g)) \<and> pte_to_pcache_meta g p \<noteq> Some i \<and>
    (unat (phys_start_metadata g) \<le> 2 * unat (phys_start_cacheline g) \<longrightarrow> pte_to_pcache_meta g p = None)"
proof -
  obtain a where a: "pcache_meta_to_pa g i = Some a" using pa.enc_total [OF assms(1,3)] by blast
  then obtain p where p: "pcache_mk_pte g spm i prot = Some p"
    by (simp add: pcache_mk_pte_def pcache_meta_to_pfn_def)
  note f = pte_of_large_line [OF assms(1,2) a p assms(5,6)]
  note b = line_address_bounds [OF assms(1) a]
  have pos: "0 < unat a" using assms(4) b(1) unat_eq_0 [of "phys_start_cacheline g"] by linarith
  have half: "unat (p AND PTE_PFN_MASK) \<le> unat a div 2" unfolding f(1) by (rule div_le_mono2) (use f(2) in simp_all)
  have "pte_to_pcache_meta g p \<noteq> Some i"
  proof
    assume "pte_to_pcache_meta g p = Some i"
    then have "unat a \<le> unat (p AND PTE_PFN_MASK)" unfolding pte_to_pcache_meta_def by (rule pa_in_line [OF assms(1) a])
    then show False using half pos by linarith
  qed
  moreover have "pte_to_pcache_meta g p = None" if "unat (phys_start_metadata g) \<le> 2 * unat (phys_start_cacheline g)"
  proof -
    have "unat (p AND PTE_PFN_MASK) < unat (phys_start_cacheline g)" using half b(2) that by linarith
    then show ?thesis by (simp add: pte_to_pcache_meta_def pa_to_pcache_meta_def pa_is_pcache_def word_le_nat_alt)
  qed
  ultimately show ?thesis using a p f(1) by blast
qed

definition large_config :: pcache_config where
  "large_config = demo_config\<lparr>line_size_shift := 16\<rparr>"

definition large_geom :: pcache_geom where
  "large_geom = \<lparr>pconfig = large_config, llc_cache_size = 8404992, nr_cachelines = 128,
     nr_cachesets = 2, nr_pages_cacheline = 2048, nr_pages_metadata = 4,
     phys_start_cacheline = 0x100000000, phys_start_metadata = 0x100800000,
     nr_bits_cacheline = 16, nr_bits_set = 1, nr_bits_tag = 47,
     pcache_cacheline_mask = 0xFFFF, pcache_set_mask = 0x10000, pcache_tag_mask = NOT 0x1FFFF,
     pcache_way_cache_stride = 131072, virt_start_cacheline = 0, pcache_meta_map = 0\<rparr>"

lemma large_boot_layout: "pcache_early_init large_config demo_registration = Some large_geom"
proof -
  have "fls64 7 = 3" "fls64 2 = 2" "fls64 65536 = 17" using fls64_unique [of 2 7] fls64_unique [of 1 2] fls64_unique [of 16 65536] by simp_all
  then show ?thesis
    by (simp add: pcache_early_init_def Let_def large_geom_def large_config_def demo_defs config_macro_defs rounddown_pow_of_two_def ilog2_def)
qed

theorem pcache_mk_pte_large_lines_witness:
  "\<exists>g p. pcache_early_init large_config demo_registration = Some g \<and>
     pcache_mk_pte g (NOT 0) 9 PAGE_SHARED_EXEC = Some p \<and> pte_to_pcache_meta g p = None"
proof -
  have "geom_wf large_geom" by (simp add: geom_wf_def large_geom_def large_config_def demo_defs)
  moreover have "PAGE_SHARED_EXEC AND PTE_PFN_MASK = 0" by code_simp
  moreover have "PAGE_SHIFT < line_size_shift (pconfig large_geom)" "9 < nr_lines large_geom" "phys_start_cacheline large_geom \<noteq> 0"
      "unat (phys_start_metadata large_geom) \<le> 2 ^ 46" "unat (phys_start_metadata large_geom) \<le> 2 * unat (phys_start_cacheline large_geom)"
    by (simp_all add: large_geom_def large_config_def nr_lines_def)
  ultimately show ?thesis using pcache_mk_pte_large_lines [of large_geom 9 PAGE_SHARED_EXEC "NOT 0"] large_boot_layout by blast
qed

text \<open>(C24) Set index. The set of a user address is its line number modulo the number of sets, so
  it is always a valid index, and the \<open>PCACHE_ASSOCIATIVITY\<close> lines walked by
  \<open>pcache_for_each_way_set\<close> from it are distinct and are exactly the lines whose
  \<open>pcache_meta_to_pcache_set\<close> is that set.\<close>

theorem set_index_and_ways:
  assumes "geom_wf g" "s = user_vaddr_to_pcache_set g a"
  shows "s = unat a div line_bytes g mod unat (nr_cachesets g) \<and>
         (\<exists>ws. pcache_ways_of_set g s = Some ws \<and> distinct ws \<and>
           length ws = unat (PCACHE_ASSOCIATIVITY (pconfig g)) \<and>
           set ws = {p. pcache_meta_to_pcache_set g p = Some s})"
proof
  show s: "s = unat a div line_bytes g mod unat (nr_cachesets g)"
    by (simp add: assms(2) user_vaddr_to_pcache_set_def unat_user_vaddr_to_set_index [OF assms(1)])
  then have lt: "s < unat (nr_cachesets g)" using geom_wf_sets_pos [OF assms(1)] by simp
  then show "\<exists>ws. pcache_ways_of_set g s = Some ws \<and> distinct ws \<and>
           length ws = unat (PCACHE_ASSOCIATIVITY (pconfig g)) \<and>
           set ws = {p. pcache_meta_to_pcache_set g p = Some s}"
    using ways_of_set_lines [OF assms(1) lt] distinct_ways_from [OF geom_wf_sets_pos [OF assms(1)]]
    by (auto simp: pcache_ways_of_set_def pcache_set_to_first_pcache_meta_def
        pcache_meta_to_pcache_set_def nr_lines_def not_le)
qed

theorem set_index_and_ways_witness:
  "\<exists>ws. pcache_ways_of_set demo_geom (user_vaddr_to_pcache_set demo_geom 0x7fff12345678) = Some ws \<and>
        length ws = 64"
  using set_index_and_ways [OF demo_geom_wf refl, of "0x7fff12345678"] by auto

text \<open>(C26) Next way. \<open>pcache_meta_next_way\<close> is documented to return \<open>NULL\<close> at the last way of
  a set, but never does: for every line it returns the pointer one stride further, which for the
  lines of the last way is past the end of the metadata array.\<close>

theorem pcache_meta_next_way_never_null:
  assumes "geom_wf g" "i < nr_lines g"
  shows "pcache_meta_next_way g i = Some (Some (i + unat (nr_cachesets g))) \<and>
         (Suc (i div unat (nr_cachesets g)) = unat (PCACHE_ASSOCIATIVITY (pconfig g)) \<longrightarrow>
           nr_lines g \<le> i + unat (nr_cachesets g))"
proof (intro conjI impI)
  let ?S = "unat (nr_cachesets g)"
  have n: "nr_lines g = 2 ^ associativity_shift (pconfig g) * ?S"
    using assms(1) by (simp add: geom_wf_def nr_lines_def)
  have "i div ?S < 2 ^ associativity_shift (pconfig g)"
    using assms(2) unfolding n by (rule less_mult_imp_div_less)
  then show "pcache_meta_next_way g i = Some (Some (i + ?S))"
    using assms(2) unat_associativity [OF assms(1)]
    by (simp add: pcache_meta_next_way_def pcache_meta_next_way_raw_def nr_lines_def)
  show "nr_lines g \<le> i + ?S" if w: "Suc (i div ?S) = unat (PCACHE_ASSOCIATIVITY (pconfig g))"
  proof -
    have "nr_lines g = Suc (i div ?S) * ?S" by (simp only: n w unat_associativity [OF assms(1)])
    also have "\<dots> \<le> i + ?S" using div_times_less_eq_dividend [of i ?S] by simp
    finally show ?thesis .
  qed
qed

theorem pcache_meta_next_way_never_null_witness:
  "nr_lines demo_geom \<le> (nr_lines demo_geom - 1) + unat (nr_cachesets demo_geom) \<and>
   pcache_meta_next_way demo_geom (nr_lines demo_geom - 1)
     = Some (Some (nr_lines demo_geom - 1 + unat (nr_cachesets demo_geom)))"
  using pcache_meta_next_way_never_null [OF demo_geom_wf, of "nr_lines demo_geom - 1"] by simp

end
