(* ===== verification/Pcache_State.thy ===== *)
theory Pcache_State
  imports Pcache_Geometry
begin

section \<open>State of the processor cache\<close>

text \<open>
  The data structures of \<open>include/processor/pcache_types.h\<close>, the inline helpers of
  \<open>pcache.h\<close> and \<open>pcache_evict.h\<close> on them, the free path of \<open>alloc.c\<close> and the
  array initialisation of \<open>init.c\<close>.

  A \<open>struct pcache_meta *\<close> is the index of the line, a \<open>struct pcache_set *\<close> the index
  of the set, a \<open>pte_t *\<close>, \<open>struct mm_struct *\<close> or \<open>struct task_struct *\<close> a number
  that stands for the address. Linked lists are HOL lists, head first. The configuration is
  \<open>CONFIG_PCACHE_EVICT_LRU\<close>, \<open>CONFIG_PCACHE_EVICTION_PERSET_LIST\<close>,
  \<open>CONFIG_PCACHE_ZEROFILL\<close> and \<open>CONFIG_DEBUG_PCACHE\<close> (the assertions
  \<open>PCACHE_BUG_ON_PCM\<close> and \<open>PCACHE_BUG_ON_RMAP\<close> stop the kernel), without
  \<open>CONFIG_COUNTER_PCACHE\<close> and \<open>CONFIG_REPLICATION_MEMORY\<close> (event counters and
  \<open>replicate\<close> are empty functions).

  Every function runs to completion as one step of one CPU. What the other CPUs may do while a
  function waits for a lock is the function \<open>others\<close> of the environment record; allocation
  failures, busy page table locks and the replies of the memory components are oracles of the
  same record. \<open>None\<close> is a stopped or hung kernel (\<open>BUG\<close>, \<open>panic\<close>, deadlock).
\<close>

subsection \<open>Types\<close>

datatype pc_bit = PC_locked | PC_valid | PC_dirty | PC_reclaim | PC_writeback | PC_piggyback
  | PC_piggyback_cached

datatype pset_flag = PCACHE_SET_evicting | PCACHE_SET_sweeping

datatype rmap_caller = RMAP_FILL_PAGE_REMOTE | RMAP_ZEROFILL | RMAP_VICTIM_FILL | RMAP_COW
  | RMAP_FORK | RMAP_MREMAP_SLOWPATH

datatype piggyback_options = DISABLE_PIGGYBACK | ENABLE_PIGGYBACK

datatype pcache_rmap_status = PCACHE_RMAP_SUCCEED | PCACHE_RMAP_AGAIN | PCACHE_RMAP_FAILED

datatype evict_status = PCACHE_EVICT_SUCCEED | PCACHE_EVICT_EAGAIN_FREEABLE
  | PCACHE_EVICT_EAGAIN_CONCURRENT | PCACHE_EVICT_FAILURE_FIND | PCACHE_EVICT_FAILURE_EVICT

type_synonym line_data = "8 word list"

text \<open>
  A reverse mapping. \<open>rm_slot\<close> is the identity of the object: \<open>Some i\<close> is entry \<open>i\<close>
  of the pre-allocated array \<open>rmap_map\<close>, \<open>None\<close> an object from \<open>kzalloc\<close> (the
  flag \<open>PCACHE_RMAP_kmalloced\<close>). The flag \<open>PCACHE_RMAP_used\<close> of the array entries is
  the state field \<open>rmap_used\<close>. Per-set eviction entries are represented alike.
\<close>

record pcache_rmap =
  rm_slot :: "nat option"
  rm_reserved :: bool
  page_table :: nat
  owner_mm :: nat
  owner_process :: nat
  rm_caller :: rmap_caller
  rm_address :: u64

record pset_eviction_entry =
  pe_slot :: "nat option"
  pe_address :: u64
  pe_owner :: nat
  pe_pcm :: nat

record piggyback_info =
  pb_tgid :: nat
  pb_user_addr :: u64
  pb_memory_nid :: nat
  pb_replication_nid :: nat

record pcache_meta =
  bits :: "pc_bit set"
  mapcount :: int
  refcount :: int
  rmap :: "pcache_rmap list"
  pb :: piggyback_info

record pcache_set =
  ps_flags :: "pset_flag set"
  free_head :: "nat list"
  lru_list :: "nat list"
  nr_lru :: int
  eviction_list :: "pset_eviction_entry list"
  nr_eviction_entries :: int

text \<open>Requests to the memory components, with the node they are sent to.\<close>

record p2m_flush_msg =
  fl_pid :: nat
  fl_user_va :: u64
  fl_pcacheline :: line_data

record p2m_pcache_miss_msg =
  ms_pid :: nat
  ms_tgid :: nat
  ms_flags :: "32 word"
  ms_missing_vaddr :: u64

datatype p2m_msg =
    P2M_FLUSH nat p2m_flush_msg
  | P2M_MISS nat p2m_pcache_miss_msg
  | P2M_MISS_FLUSH nat p2m_pcache_miss_msg p2m_flush_msg

record pstate =
  meta :: "nat \<Rightarrow> pcache_meta"
  pset :: "nat \<Rightarrow> pcache_set"
  rmap_used :: "nat \<Rightarrow> bool"
  pee_used :: "nat \<Rightarrow> bool"
  piggybacker :: "nat option"
  ptes :: "nat \<Rightarrow> pte"
  line :: "nat \<Rightarrow> line_data"
  net :: "p2m_msg list"
  tlb_flushes :: "(nat \<times> u64 \<times> u64) list"
  ptl_held :: "nat set"
  nr_kzalloc :: nat
  bad_pcache_printed :: bool

record task_struct =
  pid :: nat
  tgid :: nat
  exit_signal :: int
  signal :: nat
  group_leader :: nat
  task_mm :: nat
  home_node :: nat
  replica_node :: nat

text \<open>
  \<open>pte_ptr\<close> is the walk of the upper page table levels (\<open>rmap_get_pmd\<close> and
  \<open>pte_offset\<close>) and \<open>pte_lockptr\<close> the lock of the page table page it ends in;
  \<open>reply\<close> gives the length and content a memory component answers to the
  last message of the history it has received.
\<close>

record penv =
  geom :: pcache_geom
  supported_pte_mask :: u64
  pte_ptr :: "nat \<Rightarrow> u64 \<Rightarrow> nat"
  pte_lockptr :: "nat \<Rightarrow> u64 \<Rightarrow> nat"
  task :: "nat \<Rightarrow> task_struct"
  current :: nat
  kzalloc_ok :: "nat \<Rightarrow> bool"
  ptl_busy :: "nat \<Rightarrow> bool"
  lru_lock_busy :: "nat \<Rightarrow> bool"
  pte_alloc_ok :: "nat \<Rightarrow> u64 \<Rightarrow> bool"
  reply :: "p2m_msg list \<Rightarrow> int \<times> line_data"
  others :: "pstate \<Rightarrow> pstate"
  alloc_rounds :: nat
  spin_rounds :: nat

subsection \<open>Tasks and nodes\<close>

definition thread_group_leader :: "penv \<Rightarrow> nat \<Rightarrow> bool" where
  "thread_group_leader e p \<longleftrightarrow> exit_signal (task e p) \<ge> 0"

definition same_thread_group :: "penv \<Rightarrow> nat \<Rightarrow> nat \<Rightarrow> bool" where
  "same_thread_group e p1 p2 \<longleftrightarrow> signal (task e p1) = signal (task e p2)"

definition get_memory_home_node :: "penv \<Rightarrow> nat \<Rightarrow> nat" where
  "get_memory_home_node e p = home_node (task e p)"

definition get_memory_node :: "penv \<Rightarrow> nat \<Rightarrow> u64 \<Rightarrow> nat" where
  "get_memory_node e p a = get_memory_home_node e p"

definition get_replica_node :: "penv \<Rightarrow> nat \<Rightarrow> nat" where
  "get_replica_node e p = replica_node (task e p)"

definition get_replica_node_by_addr :: "penv \<Rightarrow> nat \<Rightarrow> u64 \<Rightarrow> nat" where
  "get_replica_node_by_addr e p a = get_replica_node e p"

subsection \<open>Bits, locks and counters of a line\<close>

definition upd_meta :: "nat \<Rightarrow> (pcache_meta \<Rightarrow> pcache_meta) \<Rightarrow> pstate \<Rightarrow> pstate" where
  "upd_meta p f s = s\<lparr>meta := (meta s)(p := f (meta s p))\<rparr>"

definition upd_pset :: "nat \<Rightarrow> (pcache_set \<Rightarrow> pcache_set) \<Rightarrow> pstate \<Rightarrow> pstate" where
  "upd_pset k f s = s\<lparr>pset := (pset s)(k := f (pset s k))\<rparr>"

definition PcacheBit :: "pc_bit \<Rightarrow> nat \<Rightarrow> pstate \<Rightarrow> bool" where
  "PcacheBit b p s \<longleftrightarrow> b \<in> bits (meta s p)"

definition SetPcache :: "pc_bit \<Rightarrow> nat \<Rightarrow> pstate \<Rightarrow> pstate" where
  "SetPcache b p s = upd_meta p (\<lambda>m. m\<lparr>bits := insert b (bits m)\<rparr>) s"

definition ClearPcache :: "pc_bit \<Rightarrow> nat \<Rightarrow> pstate \<Rightarrow> pstate" where
  "ClearPcache b p s = upd_meta p (\<lambda>m. m\<lparr>bits := bits m - {b}\<rparr>) s"

definition PsetFlag :: "pset_flag \<Rightarrow> nat \<Rightarrow> pstate \<Rightarrow> bool" where
  "PsetFlag b k s \<longleftrightarrow> b \<in> ps_flags (pset s k)"

definition SetPset :: "pset_flag \<Rightarrow> nat \<Rightarrow> pstate \<Rightarrow> pstate" where
  "SetPset b k s = upd_pset k (\<lambda>ps. ps\<lparr>ps_flags := insert b (ps_flags ps)\<rparr>) s"

definition ClearPset :: "pset_flag \<Rightarrow> nat \<Rightarrow> pstate \<Rightarrow> pstate" where
  "ClearPset b k s = upd_pset k (\<lambda>ps. ps\<lparr>ps_flags := ps_flags ps - {b}\<rparr>) s"

definition trylock_pcache :: "nat \<Rightarrow> pstate \<Rightarrow> bool \<times> pstate" where
  "trylock_pcache p s = (\<not> PcacheBit PC_locked p s, SetPcache PC_locked p s)"

text \<open>
  \<open>lock_pcache\<close> spins; if the line is held, the other CPUs run, and a line that is still
  held afterwards is the deadlock that the debug configuration turns into \<open>BUG()\<close> after ten
  seconds.
\<close>

definition lock_pcache :: "penv \<Rightarrow> nat \<Rightarrow> pstate \<Rightarrow> pstate option" where
  "lock_pcache e p s =
     (if \<not> PcacheBit PC_locked p s then Some (SetPcache PC_locked p s)
      else let s' = others e s in
        do { bug_on (PcacheBit PC_locked p s'); Some (SetPcache PC_locked p s') })"

definition unlock_pcache :: "nat \<Rightarrow> pstate \<Rightarrow> pstate option" where
  "unlock_pcache p s = do {
     bug_on (\<not> PcacheBit PC_locked p s);
     Some (ClearPcache PC_locked p s) }"

definition pcache_ref_count :: "nat \<Rightarrow> pstate \<Rightarrow> int" where
  "pcache_ref_count p s = refcount (meta s p)"

definition pcache_ref_count_set :: "nat \<Rightarrow> int \<Rightarrow> pstate \<Rightarrow> pstate" where
  "pcache_ref_count_set p v s = upd_meta p (\<lambda>m. m\<lparr>refcount := v\<rparr>) s"

definition init_pcache_ref_count :: "nat \<Rightarrow> pstate \<Rightarrow> pstate" where
  "init_pcache_ref_count p s = pcache_ref_count_set p 1 s"

definition pcache_ref_count_inc :: "nat \<Rightarrow> pstate \<Rightarrow> pstate" where
  "pcache_ref_count_inc p s = upd_meta p (\<lambda>m. m\<lparr>refcount := refcount m + 1\<rparr>) s"

definition pcache_ref_sub :: "nat \<Rightarrow> int \<Rightarrow> pstate \<Rightarrow> pstate" where
  "pcache_ref_sub p n s = upd_meta p (\<lambda>m. m\<lparr>refcount := refcount m - n\<rparr>) s"

definition pcache_ref_sub_and_test :: "nat \<Rightarrow> int \<Rightarrow> pstate \<Rightarrow> bool \<times> pstate" where
  "pcache_ref_sub_and_test p n s =
     (let s' = pcache_ref_sub p n s in (refcount (meta s' p) = 0, s'))"

definition pcache_ref_count_dec_and_test :: "nat \<Rightarrow> pstate \<Rightarrow> bool \<times> pstate" where
  "pcache_ref_count_dec_and_test p s = pcache_ref_sub_and_test p 1 s"

definition pcache_ref_count_add_unless :: "nat \<Rightarrow> int \<Rightarrow> int \<Rightarrow> pstate \<Rightarrow> bool \<times> pstate" where
  "pcache_ref_count_add_unless p nr u s =
     (if refcount (meta s p) = u then (False, s)
      else (True, upd_meta p (\<lambda>m. m\<lparr>refcount := refcount m + nr\<rparr>) s))"

definition pcache_ref_freeze :: "nat \<Rightarrow> int \<Rightarrow> pstate \<Rightarrow> bool \<times> pstate" where
  "pcache_ref_freeze p c s =
     (if refcount (meta s p) = c then (True, pcache_ref_count_set p 0 s) else (False, s))"

definition get_pcache :: "nat \<Rightarrow> pstate \<Rightarrow> pstate option" where
  "get_pcache p s = do {
     bug_on (pcache_ref_count p s \<le> 0);
     Some (pcache_ref_count_inc p s) }"

definition get_pcache_unless_zero :: "nat \<Rightarrow> pstate \<Rightarrow> bool \<times> pstate" where
  "get_pcache_unless_zero p s = pcache_ref_count_add_unless p 1 0 s"

definition put_pcache_testzero :: "nat \<Rightarrow> pstate \<Rightarrow> (bool \<times> pstate) option" where
  "put_pcache_testzero p s = do {
     bug_on (pcache_ref_count p s = 0);
     Some (pcache_ref_count_dec_and_test p s) }"

definition pcache_mapcount :: "nat \<Rightarrow> pstate \<Rightarrow> int" where
  "pcache_mapcount p s = mapcount (meta s p)"

definition pcache_mapcount_reset :: "nat \<Rightarrow> pstate \<Rightarrow> pstate" where
  "pcache_mapcount_reset p s = upd_meta p (\<lambda>m. m\<lparr>mapcount := 0\<rparr>) s"

definition pcache_mapped :: "nat \<Rightarrow> pstate \<Rightarrow> bool" where
  "pcache_mapped p s \<longleftrightarrow> 0 < mapcount (meta s p)"

definition pcache_mapcount_dec_and_test :: "nat \<Rightarrow> pstate \<Rightarrow> bool \<times> pstate" where
  "pcache_mapcount_dec_and_test p s =
     (let s' = upd_meta p (\<lambda>m. m\<lparr>mapcount := mapcount m - 1\<rparr>) s in (mapcount (meta s' p) = 0, s'))"

subsection \<open>LRU list\<close>

definition inc_pset_nr_lru :: "nat \<Rightarrow> pstate \<Rightarrow> pstate" where
  "inc_pset_nr_lru k s = upd_pset k (\<lambda>ps. ps\<lparr>nr_lru := nr_lru ps + 1\<rparr>) s"

definition dec_pset_nr_lru :: "nat \<Rightarrow> pstate \<Rightarrow> pstate" where
  "dec_pset_nr_lru k s = upd_pset k (\<lambda>ps. ps\<lparr>nr_lru := nr_lru ps - 1\<rparr>) s"

definition pset_nr_lru :: "nat \<Rightarrow> pstate \<Rightarrow> int" where
  "pset_nr_lru k s = nr_lru (pset s k)"

definition add_to_lru_list :: "nat \<Rightarrow> nat \<Rightarrow> pstate \<Rightarrow> pstate" where
  "add_to_lru_list p k s =
     inc_pset_nr_lru k (upd_pset k (\<lambda>ps. ps\<lparr>lru_list := p # lru_list ps\<rparr>) s)"

definition del_from_lru_list :: "nat \<Rightarrow> nat \<Rightarrow> pstate \<Rightarrow> pstate" where
  "del_from_lru_list p k s =
     dec_pset_nr_lru k (upd_pset k (\<lambda>ps. ps\<lparr>lru_list := remove1 p (lru_list ps)\<rparr>) s)"

definition attach_to_lru :: "penv \<Rightarrow> nat \<Rightarrow> pstate \<Rightarrow> pstate option" where
  "attach_to_lru e p s = do {
     k \<leftarrow> pcache_meta_to_pcache_set (geom e) p;
     Some (add_to_lru_list p k s) }"

definition detach_from_lru :: "penv \<Rightarrow> nat \<Rightarrow> pstate \<Rightarrow> pstate option" where
  "detach_from_lru e p s = do {
     k \<leftarrow> pcache_meta_to_pcache_set (geom e) p;
     Some (del_from_lru_list p k s) }"

subsection \<open>Freeing a line\<close>

definition PCACHE_FLAGS_CHECK_AT_FREE :: "pc_bit set" where
  "PCACHE_FLAGS_CHECK_AT_FREE =
     {PC_locked, PC_valid, PC_dirty, PC_reclaim, PC_writeback, PC_piggyback}"

definition pcache_expected_state :: "nat \<Rightarrow> pc_bit set \<Rightarrow> pstate \<Rightarrow> bool" where
  "pcache_expected_state p check_flags s \<longleftrightarrow>
     mapcount (meta s p) = 0 \<and> pcache_ref_count p s = 0 \<and> bits (meta s p) \<inter> check_flags = {}"

definition bad_pcache :: "pstate \<Rightarrow> pstate" where
  "bad_pcache s = s\<lparr>bad_pcache_printed := True\<rparr>"

definition pcache_free_check :: "nat \<Rightarrow> pstate \<Rightarrow> pstate" where
  "pcache_free_check p s =
     (if pcache_expected_state p PCACHE_FLAGS_CHECK_AT_FREE s then s else bad_pcache s)"

definition enqueue_free_list_head :: "nat \<Rightarrow> nat \<Rightarrow> pstate \<Rightarrow> pstate" where
  "enqueue_free_list_head p k s = upd_pset k (\<lambda>ps. ps\<lparr>free_head := p # free_head ps\<rparr>) s"

text \<open>Called on a non-empty list only.\<close>

definition dequeue_free_list_head :: "nat \<Rightarrow> pstate \<Rightarrow> nat \<times> pstate" where
  "dequeue_free_list_head k s =
     (hd (free_head (pset s k)), upd_pset k (\<lambda>ps. ps\<lparr>free_head := tl (free_head ps)\<rparr>) s)"

definition put_pcache_nolru :: "penv \<Rightarrow> nat \<Rightarrow> pstate \<Rightarrow> pstate option" where
  "put_pcache_nolru e p s =
     (let s = pcache_free_check p s in
      if PcacheBit PC_piggyback_cached p s then Some s
      else do {
        k \<leftarrow> pcache_meta_to_pcache_set (geom e) p;
        Some (enqueue_free_list_head p k s) })"

definition put_pcache_final :: "penv \<Rightarrow> nat \<Rightarrow> pstate \<Rightarrow> pstate option" where
  "put_pcache_final e p s = do {
     s \<leftarrow> detach_from_lru e p s;
     put_pcache_nolru e p s }"

definition put_pcache :: "penv \<Rightarrow> nat \<Rightarrow> pstate \<Rightarrow> pstate option" where
  "put_pcache e p s = do {
     (z, s) \<leftarrow> put_pcache_testzero p s;
     if z then put_pcache_final e p s else Some s }"

subsection \<open>The per-CPU piggybacker\<close>

definition set_per_cpu_piggybacker :: "nat \<Rightarrow> pstate \<Rightarrow> pstate option" where
  "set_per_cpu_piggybacker p s = do {
     bug_on (piggybacker s \<noteq> None);
     Some (SetPcache PC_piggyback_cached p (s\<lparr>piggybacker := Some p\<rparr>)) }"

definition get_per_cpu_piggybacker :: "pstate \<Rightarrow> nat option \<times> pstate" where
  "get_per_cpu_piggybacker s = (piggybacker s, s\<lparr>piggybacker := None\<rparr>)"

subsection \<open>Allocation from the free list\<close>

definition pcache_reset_flags :: "nat \<Rightarrow> pstate \<Rightarrow> pstate" where
  "pcache_reset_flags p s = upd_meta p (\<lambda>m. m\<lparr>bits := {}\<rparr>) s"

definition prep_new_pcache_meta :: "nat \<Rightarrow> pstate \<Rightarrow> pstate" where
  "prep_new_pcache_meta p s =
     init_pcache_ref_count p (pcache_mapcount_reset p (upd_meta p (\<lambda>m. m\<lparr>rmap := []\<rparr>) s))"

definition pcache_alloc_fastpath :: "nat \<Rightarrow> pstate \<Rightarrow> nat option \<times> pstate" where
  "pcache_alloc_fastpath k s =
     (case get_per_cpu_piggybacker s of
        (Some p, s) \<Rightarrow>
          (Some p, add_to_lru_list p k (prep_new_pcache_meta p
                     (SetPcache PC_piggyback p (pcache_reset_flags p s))))
      | (None, s) \<Rightarrow>
          if free_head (pset s k) = [] then (None, s)
          else let (p, s) = dequeue_free_list_head k s in
            (Some p, add_to_lru_list p k (prep_new_pcache_meta p (pcache_reset_flags p s))))"

subsection \<open>Page table entries in memory\<close>

definition pte_set :: "nat \<Rightarrow> pte \<Rightarrow> pstate \<Rightarrow> pstate" where
  "pte_set ptep v s = s\<lparr>ptes := (ptes s)(ptep := v)\<rparr>"

definition pte_clear :: "nat \<Rightarrow> pstate \<Rightarrow> pstate" where
  "pte_clear ptep s = pte_set ptep 0 s"

definition ptep_get_and_clear :: "nat \<Rightarrow> pstate \<Rightarrow> pte \<times> pstate" where
  "ptep_get_and_clear ptep s = (ptes s ptep, pte_clear ptep s)"

definition ptep_test_and_clear_young :: "nat \<Rightarrow> pstate \<Rightarrow> bool \<times> pstate" where
  "ptep_test_and_clear_young ptep s =
     (if pte_young (ptes s ptep) then (True, pte_set ptep (pte_mkold (ptes s ptep)) s) else (False, s))"

definition ptep_clear_flush_young :: "nat \<Rightarrow> pstate \<Rightarrow> bool \<times> pstate" where
  "ptep_clear_flush_young ptep s = ptep_test_and_clear_young ptep s"

text \<open>
  The page table locks this CPU holds are \<open>ptl_held\<close>; spinning on one of them is a
  deadlock.
\<close>

definition spin_lock_ptl :: "nat \<Rightarrow> pstate \<Rightarrow> pstate option" where
  "spin_lock_ptl l s = do {
     bug_on (l \<in> ptl_held s);
     Some (s\<lparr>ptl_held := insert l (ptl_held s)\<rparr>) }"

definition spin_unlock_ptl :: "nat \<Rightarrow> pstate \<Rightarrow> pstate" where
  "spin_unlock_ptl l s = s\<lparr>ptl_held := ptl_held s - {l}\<rparr>"

definition flush_tlb_mm_range :: "nat \<Rightarrow> u64 \<Rightarrow> u64 \<Rightarrow> pstate \<Rightarrow> pstate" where
  "flush_tlb_mm_range mm a b s = s\<lparr>tlb_flushes := tlb_flushes s @ [(mm, a, b)]\<rparr>"

definition kzalloc :: "penv \<Rightarrow> pstate \<Rightarrow> bool \<times> pstate" where
  "kzalloc e s = (kzalloc_ok e (nr_kzalloc s), s\<lparr>nr_kzalloc := Suc (nr_kzalloc s)\<rparr>)"

subsection \<open>Initialisation of the arrays\<close>

definition init_pcache_set :: pcache_set where
  "init_pcache_set = \<lparr>ps_flags = {}, free_head = [], lru_list = [], nr_lru = 0,
     eviction_list = [], nr_eviction_entries = 0\<rparr>"

definition init_pcache_meta :: pcache_meta where
  "init_pcache_meta = \<lparr>bits = {}, mapcount = 0, refcount = 0, rmap = [],
     pb = \<lparr>pb_tgid = 0, pb_user_addr = 0, pb_memory_nid = 0, pb_replication_nid = 0\<rparr>\<rparr>"

definition init_pcache_set_map :: "pcache_geom \<Rightarrow> pstate \<Rightarrow> pstate" where
  "init_pcache_set_map g s =
     s\<lparr>pset := (\<lambda>k. if k < unat (nr_cachesets g) then init_pcache_set else pset s k)\<rparr>"

definition init_pcache_meta_map :: "pcache_geom \<Rightarrow> pstate \<Rightarrow> pstate" where
  "init_pcache_meta_map g s =
     s\<lparr>meta := (\<lambda>p. if p < unat (nr_cachelines g) then init_pcache_meta else meta s p)\<rparr>"

primrec add_free_tail :: "nat list \<Rightarrow> nat \<Rightarrow> pstate \<Rightarrow> pstate" where
  "add_free_tail [] k s = s"
| "add_free_tail (p # ps) k s =
     add_free_tail ps k (upd_pset k (\<lambda>x. x\<lparr>free_head := free_head x @ [p]\<rparr>) s)"

primrec init_free_lists_from :: "pcache_geom \<Rightarrow> nat list \<Rightarrow> pstate \<Rightarrow> pstate option" where
  "init_free_lists_from g [] s = Some s"
| "init_free_lists_from g (k # ks) s = do {
     ways \<leftarrow> pcache_ways_of_set g k;
     init_free_lists_from g ks (add_free_tail ways k s) }"

definition init_pcache_set_free_list :: "pcache_geom \<Rightarrow> pstate \<Rightarrow> pstate option" where
  "init_pcache_set_free_list g s = init_free_lists_from g [0..<unat (nr_cachesets g)] s"

definition pcache_post_init_maps :: "pcache_geom \<Rightarrow> pstate \<Rightarrow> pstate option" where
  "pcache_post_init_maps g s =
     init_pcache_set_free_list g (init_pcache_set_map g (init_pcache_meta_map g s))"

subsection \<open>The LRU counter\<close>

text \<open>\<open>nr_lru\<close> counts \<open>lru_list\<close>: the two list operations of \<open>evict_lru.c\<close> keep the contract.\<close>

interpretation lru: counted_list "\<lambda>s. lru_list (pset s k)" "\<lambda>s. nr_lru (pset s k)" "\<lambda>p. add_to_lru_list p k" "\<lambda>p. del_from_lru_list p k" for k
  by unfold_locales (simp_all add: add_to_lru_list_def del_from_lru_list_def inc_pset_nr_lru_def dec_pset_nr_lru_def upd_pset_def)

end
