(* ===== verification/Pcache_Inv.thy ===== *)
theory Pcache_Inv
  imports Pcache_State
begin

section \<open>The invariant of the processor cache\<close>

text \<open>
  What holds of the cache between two operations of a CPU, and in the middle of an operation that
  holds freshly allocated lines. \<open>pinv e L H B s\<close> says of state \<open>s\<close>:
  \<^item> the locked lines are those of \<open>L\<close>;
  \<^item> every line is on exactly one list, the free list or the LRU list of its own set, and the LRU
    counter is the length of the LRU list (\<open>sets_ok\<close>);
  \<^item> a free line has no references and no mappings, a line on the LRU list has as many references
    as mappings and at least one, except the lines of \<open>H\<close>, which are allocated, not yet mapped
    and have the one reference of their allocator; the map count is the number of reverse mappings,
    every reverse mapping leads to a present page table entry that leads back to the line, no
    address space and no process maps a line twice, and
    the pre-allocated reverse mapping of a line is marked used exactly when the line uses it
    (\<open>lines_ok\<close>);
  \<^item> the eviction lists are empty, except for the line \<open>B\<close> whose dirty content is still to be
    piggybacked (\<open>evicts_ok\<close>);
  \<^item> every present page table entry that leads into the cache is known to its line (\<open>ptes_ok\<close>).
  The allocation and free operations keep it; the following theories add the others.
\<close>

declare upd_meta_def [pc_defs] upd_pset_def [pc_defs] PcacheBit_def [pc_defs] SetPcache_def [pc_defs]
  ClearPcache_def [pc_defs] PsetFlag_def [pc_defs] SetPset_def [pc_defs] ClearPset_def [pc_defs]
  trylock_pcache_def [pc_defs] unlock_pcache_def [pc_defs]
  pcache_ref_count_def [pc_defs] pcache_ref_count_set_def [pc_defs] init_pcache_ref_count_def [pc_defs]
  pcache_ref_count_inc_def [pc_defs] pcache_ref_sub_def [pc_defs] pcache_ref_sub_and_test_def [pc_defs]
  pcache_ref_count_dec_and_test_def [pc_defs] pcache_ref_count_add_unless_def [pc_defs]
  pcache_ref_freeze_def [pc_defs] get_pcache_def [pc_defs] get_pcache_unless_zero_def [pc_defs]
  put_pcache_testzero_def [pc_defs] pcache_mapcount_def [pc_defs] pcache_mapcount_reset_def [pc_defs]
  pcache_mapped_def [pc_defs] pcache_mapcount_dec_and_test_def [pc_defs] inc_pset_nr_lru_def [pc_defs]
  dec_pset_nr_lru_def [pc_defs] pset_nr_lru_def [pc_defs] add_to_lru_list_def [pc_defs]
  del_from_lru_list_def [pc_defs] attach_to_lru_def [pc_defs] detach_from_lru_def [pc_defs]
  enqueue_free_list_head_def [pc_defs] dequeue_free_list_head_def [pc_defs]
  pcache_reset_flags_def [pc_defs] prep_new_pcache_meta_def [pc_defs] get_per_cpu_piggybacker_def [pc_defs]
  set_per_cpu_piggybacker_def [pc_defs] pte_set_def [pc_defs] pte_clear_def [pc_defs]
  ptep_get_and_clear_def [pc_defs] ptep_test_and_clear_young_def [pc_defs]
  ptep_clear_flush_young_def [pc_defs] spin_lock_ptl_def [pc_defs] spin_unlock_ptl_def [pc_defs]
  flush_tlb_mm_range_def [pc_defs] kzalloc_def [pc_defs] bad_pcache_def [pc_defs]

subsection \<open>Definition\<close>

definition nsets :: "penv \<Rightarrow> nat" where
  "nsets e = unat (nr_cachesets (geom e))"

definition nl :: "penv \<Rightarrow> nat" where
  "nl e = nr_lines (geom e)"

definition set_of :: "penv \<Rightarrow> nat \<Rightarrow> nat" where
  "set_of e p = p mod nsets e"

text \<open>
  Lines of one page, below the frame limit of page table entries, a processor that supports
  the protection bits in use, and page tables that are not shared between address spaces: the
  entry of an address depends on its page only, and no two pages have the same entry.
\<close>

definition page_walk_ok :: "penv \<Rightarrow> bool" where
  "page_walk_ok e \<longleftrightarrow>
     (\<forall>mm a. pte_ptr e mm (a AND PAGE_MASK) = pte_ptr e mm a \<and>
             pte_lockptr e mm (a AND PAGE_MASK) = pte_lockptr e mm a) \<and>
     (\<forall>mm a mm' a'. pte_ptr e mm a = pte_ptr e mm' a' \<longrightarrow>
             mm = mm' \<and> a AND PAGE_MASK = a' AND PAGE_MASK)"

definition env_ok :: "penv \<Rightarrow> bool" where
  "env_ok e \<longleftrightarrow> geom_mapped (geom e) \<and> line_size_shift (pconfig (geom e)) = PAGE_SHIFT \<and>
     unat (phys_start_metadata (geom e)) \<le> 2 ^ 46 \<and>
     PAGE_SHARED_EXEC AND supported_pte_mask e = PAGE_SHARED_EXEC \<and> page_walk_ok e"

definition pset_wf :: "penv \<Rightarrow> pstate \<Rightarrow> nat \<Rightarrow> bool" where
  "pset_wf e s k \<longleftrightarrow>
     distinct (free_head (pset s k) @ lru_list (pset s k)) \<and>
     set (free_head (pset s k) @ lru_list (pset s k)) = {p. p < nl e \<and> set_of e p = k} \<and>
     nr_lru (pset s k) = int (length (lru_list (pset s k)))"

definition sets_ok :: "penv \<Rightarrow> pstate \<Rightarrow> bool" where
  "sets_ok e s \<longleftrightarrow> (\<forall>k < nsets e. pset_wf e s k)"

definition in_free :: "penv \<Rightarrow> pstate \<Rightarrow> nat \<Rightarrow> bool" where
  "in_free e s p \<longleftrightarrow> p \<in> set (free_head (pset s (set_of e p)))"

definition in_lru :: "penv \<Rightarrow> pstate \<Rightarrow> nat \<Rightarrow> bool" where
  "in_lru e s p \<longleftrightarrow> p \<in> set (lru_list (pset s (set_of e p)))"

text \<open>The entry at \<open>ptep\<close> maps line \<open>p\<close>.\<close>

definition maps_line :: "penv \<Rightarrow> pstate \<Rightarrow> nat \<Rightarrow> nat \<Rightarrow> bool" where
  "maps_line e s ptep p \<longleftrightarrow>
     pte_present (ptes s ptep) \<and> pte_to_pcache_meta (geom e) (ptes s ptep) = Some p"

definition rmap_ok :: "penv \<Rightarrow> pstate \<Rightarrow> nat \<Rightarrow> pcache_rmap \<Rightarrow> bool" where
  "rmap_ok e s p r \<longleftrightarrow> \<not> rm_reserved r \<and>
     pte_ptr e (owner_mm r) (rm_address r) = page_table r \<and> maps_line e s (page_table r) p \<and>
     (rm_slot r = None \<or> rm_slot r = Some p) \<and> rm_address r AND PAGE_MASK = rm_address r"

definition meta_ok :: "penv \<Rightarrow> pstate \<Rightarrow> nat \<Rightarrow> bool" where
  "meta_ok e s p \<longleftrightarrow> (let m = meta s p in
     mapcount m = int (length (rmap m)) \<and>
     distinct (map page_table (rmap m)) \<and> distinct (map owner_mm (rmap m)) \<and> distinct (map owner_process (rmap m)) \<and>
     (\<forall>r \<in> set (rmap m). rmap_ok e s p r) \<and>
     length (filter (\<lambda>r. rm_slot r = Some p) (rmap m)) = (if rmap_used s p then 1 else 0) \<and>
     (PC_valid \<in> bits m \<longleftrightarrow> rmap m \<noteq> []))"

definition line_ok :: "penv \<Rightarrow> nat set \<Rightarrow> nat set \<Rightarrow> nat option \<Rightarrow> pstate \<Rightarrow> nat \<Rightarrow> bool" where
  "line_ok e L H B s p \<longleftrightarrow> meta_ok e s p \<and>
     bits (meta s p) \<subseteq> {PC_valid, PC_piggyback, PC_locked} \<and>
     (PC_piggyback \<in> bits (meta s p) \<longleftrightarrow> B = Some p) \<and>
     (PC_locked \<in> bits (meta s p) \<longleftrightarrow> p \<in> L) \<and>
     refcount (meta s p) = (if p \<in> H then 1 else mapcount (meta s p)) \<and>
     (p \<in> H \<longrightarrow> in_lru e s p \<and> rmap (meta s p) = []) \<and>
     (in_free e s p \<longrightarrow> rmap (meta s p) = [] \<and> p \<notin> L) \<and>
     (in_lru e s p \<and> p \<notin> H \<longrightarrow> rmap (meta s p) \<noteq> [])"

definition lines_ok :: "penv \<Rightarrow> nat set \<Rightarrow> nat set \<Rightarrow> nat option \<Rightarrow> pstate \<Rightarrow> bool" where
  "lines_ok e L H B s \<longleftrightarrow> (\<forall>p < nl e. line_ok e L H B s p)"

definition evict_list_of :: "penv \<Rightarrow> nat option \<Rightarrow> nat \<Rightarrow> pset_eviction_entry list \<Rightarrow> bool" where
  "evict_list_of e B k xs \<longleftrightarrow>
     (case B of
        Some p \<Rightarrow> if set_of e p = k then (\<exists>x. xs = [x] \<and> pe_pcm x = p \<and> pe_slot x = Some p) else xs = []
      | None \<Rightarrow> xs = [])"

definition evicts_ok :: "penv \<Rightarrow> nat option \<Rightarrow> pstate \<Rightarrow> bool" where
  "evicts_ok e B s \<longleftrightarrow>
     (\<forall>k < nsets e. evict_list_of e B k (eviction_list (pset s k)) \<and>
        nr_eviction_entries (pset s k) = int (length (eviction_list (pset s k)))) \<and>
     (\<forall>p < nl e. pee_used s p \<longleftrightarrow> B = Some p)"

definition ptes_ok :: "penv \<Rightarrow> pstate \<Rightarrow> bool" where
  "ptes_ok e s \<longleftrightarrow>
     (\<forall>ptep p. maps_line e s ptep p \<longrightarrow> (\<exists>r \<in> set (rmap (meta s p)). page_table r = ptep))"

definition pinv :: "penv \<Rightarrow> nat set \<Rightarrow> nat set \<Rightarrow> nat option \<Rightarrow> pstate \<Rightarrow> bool" where
  "pinv e L H B s \<longleftrightarrow> env_ok e \<and> sets_ok e s \<and> lines_ok e L H B s \<and> evicts_ok e B s \<and> ptes_ok e s \<and>
     piggybacker s = None \<and> \<not> bad_pcache_printed s \<and> H \<subseteq> {..<nl e} \<and> H \<inter> L = {} \<and>
     (\<forall>p. B = Some p \<longrightarrow> p \<in> H)"

lemma pinvD:
  assumes "pinv e L H B s"
  shows "env_ok e" "sets_ok e s" "lines_ok e L H B s" "evicts_ok e B s" "ptes_ok e s"
    "piggybacker s = None" "\<not> bad_pcache_printed s" "H \<subseteq> {..<nl e}" "\<And>p. B = Some p \<Longrightarrow> p \<in> H"
    "H \<inter> L = {}"
  using assms by (auto simp: pinv_def)

lemma pset_wfD: "sets_ok e s \<Longrightarrow> k < nsets e \<Longrightarrow> pset_wf e s k"
  by (simp add: sets_ok_def)

lemma line_okD: "lines_ok e L H B s \<Longrightarrow> p < nl e \<Longrightarrow> line_ok e L H B s p"
  by (simp add: lines_ok_def)

subsection \<open>Consequences of the geometry\<close>

lemma env_ok_geom: "env_ok e \<Longrightarrow> geom_wf (geom e)"
  by (simp add: env_ok_def geom_mapped_def)

lemma nsets_pos: "env_ok e \<Longrightarrow> 0 < nsets e"
  by (simp add: nsets_def geom_wf_sets_pos env_ok_geom)

lemma set_of_less [simp]: "env_ok e \<Longrightarrow> set_of e p < nsets e"
  by (simp add: set_of_def nsets_pos)

lemma meta_to_set: "p < nl e \<Longrightarrow> pcache_meta_to_pcache_set (geom e) p = Some (set_of e p)"
  by (simp add: pcache_meta_to_pcache_set_def nl_def nr_lines_def set_of_def nsets_def)

lemma meta_index: "p < nl e \<Longrightarrow> pcache_meta_index (geom e) p = Some p"
  by (simp add: pcache_meta_index_def nl_def nr_lines_def)

lemma vaddr_set_less: "env_ok e \<Longrightarrow> user_vaddr_to_pcache_set (geom e) a < nsets e"
  using nsets_pos [of e]
  by (simp add: user_vaddr_to_pcache_set_def unat_user_vaddr_to_set_index [OF env_ok_geom] nsets_def)

lemma frame_in_line:
  assumes "env_ok e" "pte_to_pcache_meta (geom e) v = Some p"
  shows "p < nl e" and "pcache_meta_to_pfn (geom e) p = Some (pte_pfn v)"
proof -
  let ?g = "geom e" and ?a = "v AND PTE_PFN_MASK"
  let ?P = "unat (phys_start_cacheline ?g)" and ?n = "unat (nr_cachelines ?g)"
  have g: "geom_wf ?g" and L: "line_size_shift (pconfig ?g) = 12" using assms(1) by (auto simp: env_ok_def geom_mapped_def)
  have d: "pa_to_pcache_meta ?g ?a = Some p" using assms(2) by (simp add: pte_to_pcache_meta_def)
  then have r: "?P \<le> unat ?a" "unat ?a < unat (phys_start_metadata ?g)"
    and p: "p = unat (drop_bit 12 ((?a AND NOT (2 ^ 12 - 1)) - phys_start_cacheline ?g))"
    by (auto simp: pa_to_pcache_meta_def pa_is_pcache_def L line_mask_eq word_le_nat_alt word_less_nat_alt
        split: if_splits)
  have m: "unat (phys_start_metadata ?g) = ?P + ?n * 4096" and al: "4096 dvd ?P"
    using g L by (simp_all add: geom_wf_def)
  have aa: "?a AND NOT (2 ^ 12 - 1) = ?a"
    unfolding mask_eq_exp_minus_1 [symmetric]
    by (rule bit_eqI) (auto simp: bit_simps bit_PTE_PFN_MASK)
  have da: "4096 dvd unat ?a" using dvdI [OF unat_and_not_mask [of ?a 12, unfolded aa]] by simp
  have sub: "unat (?a - phys_start_cacheline ?g) = unat ?a - ?P" by (rule unat_sub_no_wrap [OF r(1)])
  have pv: "p = (unat ?a - ?P) div 4096" using p unfolding aa by (simp add: unat_drop_bit_u64 sub)
  have "unat ?a - ?P < ?n * 4096" using r m by linarith
  then show pn: "p < nl e" by (simp add: pv nl_def nr_lines_def less_mult_imp_div_less)
  have "4096 dvd unat ?a - ?P" using da al by (simp add: dvd_diff_nat)
  then have "unat ?a = ?P + p * 4096" using pv r(1) by simp
  moreover have "unat (phys_start_cacheline ?g + of_nat p * 2 ^ 12 + of_nat 0) = ?P + p * 2 ^ 12 + 0"
    by (rule unat_line_address [where n = ?n])
       (use pn m unat_less_2p64 [of "phys_start_metadata ?g"] in \<open>simp_all add: nl_def nr_lines_def\<close>)
  ultimately have "phys_start_cacheline ?g + of_nat p * 2 ^ 12 = ?a"
    by (intro unsigned_word_eqI [where ?'a = nat]) simp
  then have "pcache_meta_to_pa ?g p = Some ?a"
    using pn by (simp add: pcache_meta_to_pa_def nl_def nr_lines_def PCACHE_LINE_SIZE_def push_bit_of_1 L)
  then show "pcache_meta_to_pfn ?g p = Some (pte_pfn v)"
    by (simp add: pcache_meta_to_pfn_def L pte_pfn_def)
qed

subsection \<open>Congruence\<close>

lemma maps_line_cong: "ptes s' ptep = ptes s ptep \<Longrightarrow> maps_line e s' ptep p = maps_line e s ptep p"
  by (simp add: maps_line_def)

lemma line_ok_cong:
  assumes "meta s' q = meta s q" "rmap_used s' q = rmap_used s q"
    and "\<And>r. r \<in> set (rmap (meta s q)) \<Longrightarrow> ptes s' (page_table r) = ptes s (page_table r)"
    and "in_free e s' q = in_free e s q" "in_lru e s' q = in_lru e s q"
    and "q \<in> H' \<longleftrightarrow> q \<in> H" "B' = Some q \<longleftrightarrow> B = Some q" "q \<in> L' \<longleftrightarrow> q \<in> L"
  shows "line_ok e L' H' B' s' q = line_ok e L H B s q"
proof -
  have "\<forall>r \<in> set (rmap (meta s q)). rmap_ok e s' q r = rmap_ok e s q r"
    using assms(3) by (simp add: rmap_ok_def maps_line_def)
  then show ?thesis using assms(1,2,4-) by (simp add: line_ok_def meta_ok_def Let_def)
qed

text \<open>Only the bits of the line change.\<close>

lemma line_ok_bits:
  assumes l: "line_ok e L H B s p" and m: "meta t p = (meta s p)\<lparr>bits := b\<rparr>"
    and f: "ptes t = ptes s" "rmap_used t p = rmap_used s p" "in_free e t p = in_free e s p" "in_lru e t p = in_lru e s p"
    and b: "b \<subseteq> {PC_valid, PC_piggyback, PC_locked}" "PC_valid \<in> b \<longleftrightarrow> PC_valid \<in> bits (meta s p)"
      "PC_piggyback \<in> b \<longleftrightarrow> B' = Some p" "PC_locked \<in> b \<longleftrightarrow> p \<in> L'" "in_free e s p \<Longrightarrow> p \<notin> L'"
  shows "line_ok e L' H B' t p"
proof -
  have "rmap_ok e t p = rmap_ok e s p" by (simp add: rmap_ok_def maps_line_def f fun_eq_iff)
  then have "meta_ok e t p = meta_ok e s p" by (simp add: meta_ok_def m b(2) f Let_def)
  then show ?thesis using l b by (simp add: line_ok_def m f)
qed

lemma lines_okI:
  assumes "lines_ok e L H B s" "p < nl e \<Longrightarrow> line_ok e L' H' B' s' p"
    and "\<And>q. q < nl e \<Longrightarrow> q \<noteq> p \<Longrightarrow> line_ok e L H B s q \<Longrightarrow> line_ok e L' H' B' s' q"
  shows "lines_ok e L' H' B' s'"
  unfolding lines_ok_def
proof (intro allI impI)
  fix q assume "q < nl e"
  then show "line_ok e L' H' B' s' q"
    using assms(2) assms(3) [of q] line_okD [OF assms(1), of q] by (cases "q = p") simp_all
qed

lemma sets_okI:
  assumes "sets_ok e s" "k < nsets e \<Longrightarrow> pset_wf e s' k"
    and "\<And>j. j < nsets e \<Longrightarrow> j \<noteq> k \<Longrightarrow> pset s' j = pset s j"
  shows "sets_ok e s'"
  unfolding sets_ok_def
proof (intro allI impI)
  fix j assume j: "j < nsets e"
  show "pset_wf e s' j"
  proof (cases "j = k")
    case True
    then show ?thesis using assms(2) j by simp
  next
    case False
    then show ?thesis using assms(3) [OF j False] pset_wfD [OF assms(1) j] by (simp add: pset_wf_def)
  qed
qed

lemma evicts_ok_cong:
  assumes "evicts_ok e B s" "pee_used s' = pee_used s"
    and "\<And>k. k < nsets e \<Longrightarrow> eviction_list (pset s' k) = eviction_list (pset s k)"
    and "\<And>k. k < nsets e \<Longrightarrow> nr_eviction_entries (pset s' k) = nr_eviction_entries (pset s k)"
  shows "evicts_ok e B s'"
  using assms by (simp add: evicts_ok_def)

lemma ptes_ok_cong:
  assumes "ptes_ok e s" "ptes s' = ptes s"
    and "\<And>ptep p. maps_line e s ptep p \<Longrightarrow> rmap (meta s' p) = rmap (meta s p)"
  shows "ptes_ok e s'"
  using assms by (auto simp: ptes_ok_def maps_line_def)

lemma in_lists:
  assumes "sets_ok e s" "env_ok e" "p < nl e"
  shows "in_free e s p \<noteq> in_lru e s p"
proof -
  have "pset_wf e s (set_of e p)" using assms(1) set_of_less [OF assms(2)] by (rule pset_wfD)
  then show ?thesis using assms(3) by (auto simp: pset_wf_def in_free_def in_lru_def set_eq_iff)
qed

lemma list_member_set:
  assumes "sets_ok e s" "k < nsets e"
  shows "p \<in> set (free_head (pset s k)) \<Longrightarrow> p < nl e \<and> set_of e p = k \<and> in_free e s p"
    and "p \<in> set (lru_list (pset s k)) \<Longrightarrow> p < nl e \<and> set_of e p = k \<and> in_lru e s p"
  using pset_wfD [OF assms] by (auto simp: pset_wf_def in_free_def in_lru_def set_eq_iff)

lemma unmapped_line_not_mapped:
  assumes "ptes_ok e s" "rmap (meta s p) = []"
  shows "\<not> maps_line e s ptep p"
  using assms by (fastforce simp: ptes_ok_def)

text \<open>The fields no operation on lists and counters touches.\<close>

definition same_memory :: "pstate \<Rightarrow> pstate \<Rightarrow> bool" where
  "same_memory s s' \<longleftrightarrow> ptes s' = ptes s \<and> line s' = line s \<and> net s' = net s \<and>
     tlb_flushes s' = tlb_flushes s \<and> ptl_held s' = ptl_held s \<and> nr_kzalloc s' = nr_kzalloc s \<and>
     rmap_used s' = rmap_used s \<and> pee_used s' = pee_used s"

subsection \<open>Allocating from the free list\<close>

lemma fastpath_free:
  assumes inv: "pinv e L H B s" and k: "k < nsets e" and f: "free_head (pset s k) = p # fs"
  obtains s' where "pcache_alloc_fastpath k s = (Some p, s')" "pinv e L (insert p H) B s'"
    "same_memory s s'" "p < nl e" "set_of e p = k" "p \<notin> H" "\<not> in_lru e s p"
    "\<And>q. q \<noteq> p \<Longrightarrow> meta s' q = meta s q"
proof -
  note D = pinvD [OF inv]
  let ?m = "(meta s p)\<lparr>bits := {}, mapcount := 0, refcount := 1, rmap := []\<rparr>"
  let ?ps = "(pset s k)\<lparr>free_head := fs, lru_list := p # lru_list (pset s k), nr_lru := nr_lru (pset s k) + 1\<rparr>"
  define s' where "s' = s\<lparr>meta := (meta s)(p := ?m), pset := (pset s)(k := ?ps), piggybacker := None\<rparr>"
  have eq: "pcache_alloc_fastpath k s = (Some p, s')"
    using D(6) f by (simp add: pcache_alloc_fastpath_def pc_defs s'_def fun_upd_def) (auto simp: fun_eq_iff)
  have wf: "pset_wf e s k" by (rule pset_wfD [OF D(2) k])
  have p: "p < nl e" "set_of e p = k" and inf: "in_free e s p"
    using list_member_set(1) [OF D(2) k, of p] f by auto
  have nlru: "\<not> in_lru e s p" using in_lists [OF D(2,1) p(1)] inf by simp
  have lp: "line_ok e L H B s p" by (rule line_okD [OF D(3) p(1)])
  then have pe: "rmap (meta s p) = []" "p \<notin> H" "p \<notin> L" using inf nlru by (auto simp: line_ok_def)
  have B: "B \<noteq> Some p" using D(9) pe by blast
  have un: "\<not> rmap_used s p" using lp pe by (auto simp: line_ok_def meta_ok_def Let_def split: if_splits)
  have wf': "pset_wf e s' k"
    using wf f by (auto simp: pset_wf_def s'_def)
  have nf: "\<not> in_free e s' p" using wf f p by (auto simp: in_free_def s'_def pset_wf_def)
  have mem: "in_free e s' q = in_free e s q" "in_lru e s' q = in_lru e s q" if "q \<noteq> p" for q
    using that f by (auto simp: in_free_def in_lru_def s'_def)
  have "pinv e L (insert p H) B s'"
    unfolding pinv_def
  proof (intro conjI)
    show "sets_ok e s'" by (rule sets_okI [OF D(2) wf']) (simp add: s'_def)
    show "lines_ok e L (insert p H) B s'"
    proof (rule lines_okI [OF D(3), of p])
      show "line_ok e L (insert p H) B s' p"
        using B un p nf pe(3) by (simp add: line_ok_def meta_ok_def Let_def s'_def in_lru_def)
      show "line_ok e L (insert p H) B s' q" if "q < nl e" "q \<noteq> p" "line_ok e L H B s q" for q
        using that mem [OF that(2)] by (subst line_ok_cong [where s = s and L = L and H = H and B = B]) (auto simp: s'_def)
    qed
    show "evicts_ok e B s'" by (rule evicts_ok_cong [OF D(4)]) (simp_all add: s'_def)
    show "ptes_ok e s'"
      by (rule ptes_ok_cong [OF D(5)]) (use unmapped_line_not_mapped [OF D(5) pe(1)] in \<open>auto simp: s'_def\<close>)
  qed (use D p(1) pe(3) in \<open>auto simp: s'_def\<close>)
  then show ?thesis
    using that [OF eq] p pe(2) nlru by (simp add: same_memory_def s'_def)
qed

subsection \<open>Dropping references\<close>

text \<open>The effect of freeing a line: back to the head of the free list of its set.\<close>

definition free_line :: "penv \<Rightarrow> nat \<Rightarrow> pstate \<Rightarrow> pstate" where
  "free_line e p s = (let k = set_of e p; ps = pset s k in
     s\<lparr>meta := (meta s)(p := (meta s p)\<lparr>refcount := 0\<rparr>),
       pset := (pset s)(k := ps\<lparr>lru_list := remove1 p (lru_list ps), nr_lru := nr_lru ps - 1,
                                free_head := p # free_head ps\<rparr>)\<rparr>)"

lemma put_pcache_more:
  assumes "refcount (meta s p) \<noteq> 0" "refcount (meta s p) \<noteq> 1"
  shows "put_pcache e p s = Some (s\<lparr>meta := (meta s)(p := (meta s p)\<lparr>refcount := refcount (meta s p) - 1\<rparr>)\<rparr>)"
  using assms by (simp add: put_pcache_def pc_defs)

lemma put_pcache_last:
  assumes "refcount (meta s p) = 1" "p < nl e" "mapcount (meta s p) = 0"
    "bits (meta s p) \<inter> insert PC_piggyback_cached PCACHE_FLAGS_CHECK_AT_FREE = {}"
  shows "put_pcache e p s = Some (free_line e p s)"
  using assms
  by (simp add: put_pcache_def put_pcache_final_def put_pcache_nolru_def pcache_free_check_def
      pcache_expected_state_def pc_defs meta_to_set free_line_def Let_def)

lemma int_length_minus: "x \<in> set xs \<Longrightarrow> int (length xs - Suc 0) = int (length xs) - 1"
  by (cases xs) auto

lemma pinv_free_line:
  assumes inv: "pinv e L H B s" and p: "p \<in> H" and B: "B \<noteq> Some p"
  shows "pinv e L (H - {p}) B (free_line e p s)"
proof -
  note D = pinvD [OF inv]
  have pn: "p < nl e" using D(8) p by auto
  have lp: "line_ok e L H B s p" by (rule line_okD [OF D(3) pn])
  have lru: "in_lru e s p" and rm: "rmap (meta s p) = []" using lp p by (auto simp: line_ok_def)
  have pL: "p \<notin> L" using D(10) p by blast
  let ?k = "set_of e p" and ?s = "free_line e p s"
  have k: "?k < nsets e" by (rule set_of_less [OF D(1)])
  have wf: "pset_wf e s ?k" by (rule pset_wfD [OF D(2) k])
  have pin: "p \<in> set (lru_list (pset s ?k))" using lru by (simp add: in_lru_def)
  have wf': "pset_wf e ?s ?k"
    using wf pin by (auto simp: pset_wf_def free_line_def Let_def length_remove1 int_length_minus)
  have mem: "in_free e ?s q = in_free e s q" "in_lru e ?s q = in_lru e s q" if "q \<noteq> p" for q
    using that by (auto simp: in_free_def in_lru_def free_line_def Let_def)
  show ?thesis
    unfolding pinv_def
  proof (intro conjI)
    show "sets_ok e ?s" by (rule sets_okI [OF D(2) wf']) (simp add: free_line_def Let_def)
    show "lines_ok e L (H - {p}) B ?s"
    proof (rule lines_okI [OF D(3), of p])
      have "\<not> in_lru e ?s p" using wf by (auto simp: in_lru_def free_line_def Let_def pset_wf_def)
      moreover have "mapcount (meta s p) = 0" using lp rm by (simp add: line_ok_def meta_ok_def Let_def)
      ultimately show "line_ok e L (H - {p}) B ?s p"
        using lp rm B pL by (auto simp: line_ok_def meta_ok_def Let_def free_line_def)
      show "line_ok e L (H - {p}) B ?s q" if "q < nl e" "q \<noteq> p" "line_ok e L H B s q" for q
        using that mem [OF that(2)]
        by (subst line_ok_cong [where s = s and L = L and H = H and B = B]) (auto simp: free_line_def Let_def)
    qed
    show "evicts_ok e B ?s" by (rule evicts_ok_cong [OF D(4)]) (simp_all add: free_line_def Let_def)
    show "ptes_ok e ?s" by (rule ptes_ok_cong [OF D(5)]) (simp_all add: free_line_def Let_def)
  qed (use D p B in \<open>auto simp: free_line_def Let_def\<close>)
qed

lemma put_pcache_held:
  assumes inv: "pinv e L H B s" and p: "p \<in> H" and B: "B \<noteq> Some p"
  shows "put_pcache e p s = Some (free_line e p s)"
proof -
  note D = pinvD [OF inv]
  have pn: "p < nl e" using D(8) p by auto
  have "line_ok e L H B s p" by (rule line_okD [OF D(3) pn])
  then show ?thesis
    using p B pn D(10) by (intro put_pcache_last) (auto simp: line_ok_def meta_ok_def Let_def PCACHE_FLAGS_CHECK_AT_FREE_def)
qed

subsection \<open>Mapping and unmapping\<close>

definition map_line :: "nat \<Rightarrow> pcache_rmap \<Rightarrow> pte \<Rightarrow> pstate \<Rightarrow> pstate" where
  "map_line p r v s = (let m = meta s p in
     s\<lparr>meta := (meta s)(p := m\<lparr>rmap := r # rmap m, mapcount := mapcount m + 1,
                              bits := insert PC_valid (bits m)\<rparr>),
       rmap_used := (case rm_slot r of None \<Rightarrow> rmap_used s | Some i \<Rightarrow> (rmap_used s)(i := True)),
       ptes := (ptes s)(page_table r := v)\<rparr>)"

definition unmap_line :: "nat \<Rightarrow> pcache_rmap \<Rightarrow> pstate \<Rightarrow> pstate" where
  "unmap_line p r s = (let m = meta s p; rs = remove1 r (rmap m) in
     s\<lparr>meta := (meta s)(p := m\<lparr>rmap := rs, mapcount := mapcount m - 1,
                              bits := (if mapcount m = 1 then bits m - {PC_valid} else bits m)\<rparr>),
       rmap_used := (case rm_slot r of None \<Rightarrow> rmap_used s | Some i \<Rightarrow> (rmap_used s)(i := False)),
       ptes := (ptes s)(page_table r := 0)\<rparr>)"

definition set_ref :: "nat \<Rightarrow> int \<Rightarrow> pstate \<Rightarrow> pstate" where
  "set_ref p n s = s\<lparr>meta := (meta s)(p := (meta s p)\<lparr>refcount := n\<rparr>)\<rparr>"

lemma maps_line_unique: "maps_line e s ptep p \<Longrightarrow> maps_line e s ptep q \<Longrightarrow> p = q"
  by (simp add: maps_line_def)

lemma rmap_of_line_unique:
  assumes "lines_ok e L H B s" "p < nl e" "q < nl e" "r \<in> set (rmap (meta s p))" "r' \<in> set (rmap (meta s q))"
    "page_table r = page_table r'"
  shows "p = q"
proof -
  have "rmap_ok e s p r" "rmap_ok e s q r'"
    using line_okD [OF assms(1,2)] line_okD [OF assms(1,3)] assms(4,5)
    by (auto simp: line_ok_def meta_ok_def Let_def)
  then show ?thesis using assms(6) maps_line_unique by (auto simp: rmap_ok_def)
qed

lemma other_rmaps_untouched:
  assumes "lines_ok e L H B s" "q < nl e" "\<not> (\<exists>p. maps_line e s ptep p)" "r \<in> set (rmap (meta s q))"
  shows "page_table r \<noteq> ptep"
  using line_okD [OF assms(1,2)] assms(3,4) by (fastforce simp: line_ok_def meta_ok_def Let_def rmap_ok_def)

lemma filter_slot_remove1:
  assumes r: "r \<in> set rs" and n: "length (filter P rs) = (if u then 1 else 0)"
  shows "length (filter P (remove1 r rs)) = (if u \<and> \<not> P r then 1 else 0)"
proof (cases "P r")
  case True
  then have "r \<in> set (filter P rs)" using r by simp
  moreover have "filter P rs \<noteq> []" using True r by (auto simp: filter_empty_conv)
  then have u using n by (cases u) simp_all
  ultimately show ?thesis using True n by (simp add: filter_remove1 length_remove1)
next
  case False
  then show ?thesis using n by (simp add: filter_remove1 remove1_idem)
qed

lemma not_maps_zero: "ptes s ptep = 0 \<Longrightarrow> \<not> maps_line e s ptep p"
  by (simp add: maps_line_def)

lemma pinv_unmap_last:
  assumes inv: "pinv e L H B s" and p: "p < nl e" and r: "rmap (meta s p) = [r]" and pL: "p \<notin> L"
  shows "pinv e L (insert p H) B (set_ref p 1 (unmap_line p r s))"
proof -
  note D = pinvD [OF inv]
  let ?s = "set_ref p 1 (unmap_line p r s)"
  have lp: "line_ok e L H B s p" by (rule line_okD [OF D(3) p])
  have pH: "p \<notin> H" and lru: "in_lru e s p"
    using lp r in_lists [OF D(2,1) p] by (auto simp: line_ok_def)
  have B: "B \<noteq> Some p" using D(9) pH by blast
  have ro: "rmap_ok e s p r" and mc: "mapcount (meta s p) = 1"
    using lp r by (auto simp: line_ok_def meta_ok_def Let_def)
  have other: "page_table r' \<noteq> page_table r" if "q < nl e" "q \<noteq> p" "r' \<in> set (rmap (meta s q))" for q r'
    using rmap_of_line_unique [OF D(3) p that(1), of r r'] that r by auto
  have used: "rmap_used ?s q = rmap_used s q" if "q \<noteq> p" for q
    using that ro by (auto simp: set_ref_def unmap_line_def Let_def rmap_ok_def split: option.splits)
  have nused: "\<not> rmap_used ?s p"
    using lp r by (auto simp: set_ref_def unmap_line_def Let_def line_ok_def meta_ok_def split: option.splits if_splits)
  have lists: "pset ?s = pset s" by (simp add: set_ref_def unmap_line_def Let_def)
  show ?thesis
    unfolding pinv_def
  proof (intro conjI)
    show "sets_ok e ?s" by (rule sets_okI [OF D(2), of 0]) (use D(2) lists in \<open>auto simp: pset_wf_def sets_ok_def\<close>)
    show "lines_ok e L (insert p H) B ?s"
    proof (rule lines_okI [OF D(3), of p])
      show "line_ok e L (insert p H) B ?s p"
        using lp r nused mc lru B pL in_lists [OF D(2,1) p]
        by (auto simp: line_ok_def meta_ok_def Let_def set_ref_def unmap_line_def in_lru_def in_free_def)
      show "line_ok e L (insert p H) B ?s q" if "q < nl e" "q \<noteq> p" "line_ok e L H B s q" for q
        using that other [OF that(1,2)] used [OF that(2)]
        by (subst line_ok_cong [where s = s and L = L and H = H and B = B])
           (auto simp: set_ref_def unmap_line_def Let_def in_free_def in_lru_def)
    qed
    show "evicts_ok e B ?s" by (rule evicts_ok_cong [OF D(4)]) (simp_all add: set_ref_def unmap_line_def Let_def)
    show "ptes_ok e ?s"
      unfolding ptes_ok_def
    proof (intro allI impI)
      fix ptep q assume m: "maps_line e ?s ptep q"
      then have ne: "ptep \<noteq> page_table r"
        using not_maps_zero [of ?s ptep e q] by (auto simp: set_ref_def unmap_line_def Let_def)
      then have m': "maps_line e s ptep q" using m by (simp add: maps_line_def set_ref_def unmap_line_def Let_def)
      then obtain r' where r': "r' \<in> set (rmap (meta s q))" "page_table r' = ptep"
        using D(5) by (auto simp: ptes_ok_def)
      then have "q \<noteq> p" using ne r by auto
      then show "\<exists>r' \<in> set (rmap (meta ?s q)). page_table r' = ptep"
        using r' by (auto simp: set_ref_def unmap_line_def Let_def)
    qed
  qed (use D p pL in \<open>auto simp: set_ref_def unmap_line_def Let_def\<close>)
qed

lemma pinv_unmap_more:
  assumes inv: "pinv e L H B s" and p: "p < nl e" and r: "r \<in> set (rmap (meta s p))"
    and n: "1 < length (rmap (meta s p))"
  shows "pinv e L H B (set_ref p (refcount (meta s p) - 1) (unmap_line p r s))"
proof -
  note D = pinvD [OF inv]
  let ?s = "set_ref p (refcount (meta s p) - 1) (unmap_line p r s)" and ?rs = "remove1 r (rmap (meta s p))"
  have lp: "line_ok e L H B s p" by (rule line_okD [OF D(3) p])
  have pH: "p \<notin> H" and lru: "in_lru e s p"
    using lp n in_lists [OF D(2,1) p] by (auto simp: line_ok_def)
  have ro: "rmap_ok e s p r" and mc: "mapcount (meta s p) = int (length (rmap (meta s p)))"
    and dis: "distinct (map page_table (rmap (meta s p)))"
    and fl: "length (filter (\<lambda>r. rm_slot r = Some p) (rmap (meta s p))) = (if rmap_used s p then 1 else 0)"
    using lp r by (auto simp: line_ok_def meta_ok_def Let_def)
  have dr: "distinct (rmap (meta s p))" using dis by (simp add: distinct_map)
  have rest: "page_table r' \<noteq> page_table r" if "r' \<in> set ?rs" for r'
    using that dis r dr by (auto simp: distinct_map inj_on_def)
  have other: "page_table r' \<noteq> page_table r" if "q < nl e" "q \<noteq> p" "r' \<in> set (rmap (meta s q))" for q r'
    using rmap_of_line_unique [OF D(3) p that(1) r that(3)] that(2) by auto
  have used: "rmap_used ?s q = rmap_used s q" if "q \<noteq> p" for q
    using that ro by (auto simp: set_ref_def unmap_line_def Let_def rmap_ok_def split: option.splits)
  have usedp: "rmap_used ?s p = (rmap_used s p \<and> rm_slot r \<noteq> Some p)"
    using ro by (auto simp: set_ref_def unmap_line_def Let_def rmap_ok_def split: option.splits)
  have fl': "length (filter (\<lambda>r. rm_slot r = Some p) ?rs) = (if rmap_used ?s p then 1 else 0)"
    using filter_slot_remove1 [OF r fl] by (simp add: usedp)
  have len: "int (length ?rs) = int (length (rmap (meta s p))) - 1" "?rs \<noteq> []"
  proof -
    have l: "length ?rs = length (rmap (meta s p)) - 1" using r by (simp add: length_remove1)
    then show "int (length ?rs) = int (length (rmap (meta s p))) - 1" using n by simp
    show "?rs \<noteq> []" using l n by (metis length_0_conv not_less zero_less_diff zero_le)
  qed
  have own: "distinct (map owner_mm (rmap (meta s p)))" "distinct (map owner_process (rmap (meta s p)))"
    using lp by (simp_all add: line_ok_def meta_ok_def Let_def)
  have dis': "distinct (map page_table ?rs)" "distinct (map owner_mm ?rs)" "distinct (map owner_process ?rs)"
    using dis own dr by (auto simp: distinct_map intro: inj_on_diff)
  have rok: "rmap_ok e ?s p r'" if "r' \<in> set ?rs" for r'
  proof -
    have "rmap_ok e s p r'" using lp notin_set_remove1 that by (fastforce simp: line_ok_def meta_ok_def Let_def)
    then show ?thesis using rest [OF that] by (simp add: rmap_ok_def maps_line_def set_ref_def unmap_line_def Let_def)
  qed
  show ?thesis
    unfolding pinv_def
  proof (intro conjI)
    show "sets_ok e ?s"
      by (rule sets_okI [OF D(2), of 0])
         (use D(2) in \<open>auto simp: pset_wf_def sets_ok_def set_ref_def unmap_line_def Let_def\<close>)
    show "lines_ok e L H B ?s"
    proof (rule lines_okI [OF D(3), of p])
      have "meta ?s p = (meta s p)\<lparr>rmap := ?rs, mapcount := mapcount (meta s p) - 1, refcount := refcount (meta s p) - 1\<rparr>"
        using mc n by (simp add: set_ref_def unmap_line_def Let_def)
      then show "line_ok e L H B ?s p"
        using lp rok fl' len dis' mc pH lru in_lists [OF D(2,1) p]
        by (auto simp: line_ok_def meta_ok_def Let_def in_lru_def in_free_def set_ref_def unmap_line_def)
      show "line_ok e L H B ?s q" if "q < nl e" "q \<noteq> p" "line_ok e L H B s q" for q
        using that other [OF that(1,2)] used [OF that(2)]
        by (subst line_ok_cong [where s = s and L = L and H = H and B = B])
           (auto simp: set_ref_def unmap_line_def Let_def in_free_def in_lru_def)
    qed
    show "evicts_ok e B ?s" by (rule evicts_ok_cong [OF D(4)]) (simp_all add: set_ref_def unmap_line_def Let_def)
    show "ptes_ok e ?s"
      unfolding ptes_ok_def
    proof (intro allI impI)
      fix ptep q assume m: "maps_line e ?s ptep q"
      then have ne: "ptep \<noteq> page_table r"
        using not_maps_zero [of ?s ptep e q] by (auto simp: set_ref_def unmap_line_def Let_def)
      then have "maps_line e s ptep q" using m by (simp add: maps_line_def set_ref_def unmap_line_def Let_def)
      then obtain r' where "r' \<in> set (rmap (meta s q))" "page_table r' = ptep"
        using D(5) by (auto simp: ptes_ok_def)
      moreover from this have "r' \<noteq> r" using ne by auto
      ultimately show "\<exists>r' \<in> set (rmap (meta ?s q)). page_table r' = ptep"
        by (auto simp: set_ref_def unmap_line_def Let_def)
    qed
  qed (use D in \<open>auto simp: set_ref_def unmap_line_def Let_def\<close>)
qed

text \<open>
  One more mapping of line \<open>p\<close>: the first one of a line in \<open>H\<close>, which takes over the
  allocator's reference, or a further one, with a reference of its own.
\<close>

lemma pinv_map_line:
  assumes inv: "pinv e L H B s" and p: "p < nl e" and B: "B \<noteq> Some p"
    and free: "\<not> (\<exists>q. maps_line e s (page_table r) q)"
    and r: "\<not> rm_reserved r" "pte_ptr e (owner_mm r) (rm_address r) = page_table r"
      "rm_slot r = (if rmap_used s p then None else Some p)" "rm_address r AND PAGE_MASK = rm_address r"
    and v: "pte_present v" "pte_to_pcache_meta (geom e) v = Some p"
    and lru: "in_lru e s p" and own: "\<forall>pos \<in> set (rmap (meta s p)). owner_mm pos \<noteq> owner_mm r \<and> owner_process pos \<noteq> owner_process r"
  shows "pinv e L (H - {p}) B (set_ref p (mapcount (meta s p) + 1) (map_line p r v s))"
proof -
  note D = pinvD [OF inv]
  define t where "t = set_ref p (mapcount (meta s p) + 1) (map_line p r v s)"
  have lp: "line_ok e L H B s p" by (rule line_okD [OF D(3) p])
  have pt: "ptes t ptep = (if ptep = page_table r then v else ptes s ptep)" for ptep
    by (simp add: t_def set_ref_def map_line_def Let_def)
  have ps: "pset t = pset s" by (simp add: t_def set_ref_def map_line_def Let_def)
  have other: "page_table r' \<noteq> page_table r" if "q < nl e" "r' \<in> set (rmap (meta s q))" for q r'
    by (rule other_rmaps_untouched [OF D(3) that(1) free that(2)])
  have used: "rmap_used t q = (if q = p then True else rmap_used s q)" for q
    using r(3) by (auto simp: t_def set_ref_def map_line_def Let_def split: if_splits)
  have mp: "meta t p = (meta s p)\<lparr>rmap := r # rmap (meta s p), mapcount := mapcount (meta s p) + 1,
      bits := insert PC_valid (bits (meta s p)), refcount := mapcount (meta s p) + 1\<rparr>"
    by (simp add: t_def set_ref_def map_line_def Let_def)
  have rok: "rmap_ok e t p r'" if "r' \<in> set (r # rmap (meta s p))" for r'
  proof (cases "r' = r")
    case True
    then show ?thesis using r v by (simp add: rmap_ok_def maps_line_def pt)
  next
    case False
    then have "r' \<in> set (rmap (meta s p))" using that by simp
    moreover from this have "rmap_ok e s p r'" using lp by (simp add: line_ok_def meta_ok_def Let_def)
    ultimately show ?thesis using other [OF p, of r'] by (simp add: rmap_ok_def maps_line_def pt)
  qed
  show ?thesis
    unfolding pinv_def t_def [symmetric]
  proof (intro conjI)
    show "sets_ok e t"
      by (rule sets_okI [OF D(2), of 0])
         (use D(2) in \<open>auto simp: pset_wf_def sets_ok_def t_def set_ref_def map_line_def Let_def\<close>)
    show "lines_ok e L (H - {p}) B t"
    proof (rule lines_okI [OF D(3), of p])
      have "page_table r \<notin> page_table ` set (rmap (meta s p))" using other [OF p] by force
      moreover have "owner_mm r \<notin> owner_mm ` set (rmap (meta s p))" "owner_process r \<notin> owner_process ` set (rmap (meta s p))"
        using own by force+
      moreover have "meta_ok e s p" using lp by (simp add: line_ok_def)
      ultimately have "meta_ok e t p" using rok r(3) by (auto simp: meta_ok_def mp used Let_def)
      then show "line_ok e L (H - {p}) B t p"
        using lp lru B in_lists [OF D(2,1) p]
        by (auto simp: line_ok_def mp in_lru_def in_free_def ps)
      show "line_ok e L (H - {p}) B t q" if "q < nl e" "q \<noteq> p" "line_ok e L H B s q" for q
        using that other [OF that(1)] used [of q]
        by (subst line_ok_cong [where s = s and L = L and H = H and B = B])
           (auto simp: t_def set_ref_def map_line_def Let_def in_free_def in_lru_def)
    qed
    show "evicts_ok e B t" by (rule evicts_ok_cong [OF D(4)]) (simp_all add: t_def set_ref_def map_line_def Let_def)
    show "ptes_ok e t"
      unfolding ptes_ok_def
    proof (intro allI impI)
      fix ptep q assume m: "maps_line e t ptep q"
      show "\<exists>r' \<in> set (rmap (meta t q)). page_table r' = ptep"
      proof (cases "ptep = page_table r")
        case True
        then have "q = p" using m v by (simp add: maps_line_def pt)
        then show ?thesis using True mp by auto
      next
        case False
        then have "maps_line e s ptep q" using m by (simp add: maps_line_def pt)
        then obtain r' where "r' \<in> set (rmap (meta s q))" "page_table r' = ptep"
          using D(5) by (auto simp: ptes_ok_def)
        then show ?thesis by (auto simp: t_def set_ref_def map_line_def Let_def)
      qed
    qed
  qed (use D B in \<open>auto simp: t_def set_ref_def map_line_def Let_def\<close>)
qed

text \<open>Changing flag bits of an entry keeps the invariant.\<close>

lemma pinv_pte_flags:
  assumes inv: "pinv e L H B s" and v: "pte_present v = pte_present (ptes s ptep)" "pte_pfn v = pte_pfn (ptes s ptep)"
  shows "pinv e L H B (s\<lparr>ptes := (ptes s)(ptep := v)\<rparr>)"
proof -
  note D = pinvD [OF inv]
  let ?s = "s\<lparr>ptes := (ptes s)(ptep := v)\<rparr>"
  have "v AND PTE_PFN_MASK = ptes s ptep AND PTE_PFN_MASK" by (simp add: pte_frame_address v(2))
  then have "pte_to_pcache_meta (geom e) v = pte_to_pcache_meta (geom e) (ptes s ptep)"
    by (simp add: pte_to_pcache_meta_def)
  then have m: "maps_line e ?s x q = maps_line e s x q" for x q using v(1) by (simp add: maps_line_def)
  then have "rmap_ok e ?s = rmap_ok e s" by (simp add: rmap_ok_def fun_eq_iff)
  then have "line_ok e L H B ?s = line_ok e L H B s"
    by (simp add: line_ok_def meta_ok_def in_lru_def in_free_def fun_eq_iff Let_def)
  then show ?thesis
    using D m by (simp add: pinv_def lines_ok_def sets_ok_def pset_wf_def evicts_ok_def ptes_ok_def)
qed

text \<open>Neither the contents of lines, nor messages, TLB flushes or page table locks matter to it.\<close>

lemma pinv_frame [simp]:
  "pinv e L H B (s\<lparr>line := l\<rparr>) = pinv e L H B s" "pinv e L H B (s\<lparr>net := n\<rparr>) = pinv e L H B s"
  "pinv e L H B (s\<lparr>tlb_flushes := t\<rparr>) = pinv e L H B s" "pinv e L H B (s\<lparr>ptl_held := h\<rparr>) = pinv e L H B s"
  "pinv e L H B (s\<lparr>nr_kzalloc := c\<rparr>) = pinv e L H B s"
  by (simp_all add: pinv_def lines_ok_def sets_ok_def pset_wf_def evicts_ok_def ptes_ok_def line_ok_def
      meta_ok_def in_lru_def in_free_def Let_def rmap_ok_def maps_line_def)

text \<open>Nor the flags of the sets, the piggyback information, or the order of an LRU list.\<close>

lemma pinv_sets_meta_frame:
  assumes inv: "pinv e L H B s"
    and ps: "\<And>k. k < nsets e \<Longrightarrow> free_head (pset t k) = free_head (pset s k) \<and>
        mset (lru_list (pset t k)) = mset (lru_list (pset s k)) \<and> nr_lru (pset t k) = nr_lru (pset s k) \<and>
        eviction_list (pset t k) = eviction_list (pset s k) \<and>
        nr_eviction_entries (pset t k) = nr_eviction_entries (pset s k)"
    and ms: "\<And>p. bits (meta t p) = bits (meta s p) \<and> mapcount (meta t p) = mapcount (meta s p) \<and>
        refcount (meta t p) = refcount (meta s p) \<and> rmap (meta t p) = rmap (meta s p)"
    and rest: "rmap_used t = rmap_used s" "pee_used t = pee_used s" "ptes t = ptes s"
      "piggybacker t = piggybacker s" "bad_pcache_printed t = bad_pcache_printed s"
  shows "pinv e L H B t"
proof -
  note D = pinvD [OF inv]
  have lru: "set (lru_list (pset t k)) = set (lru_list (pset s k))"
    "distinct (lru_list (pset t k)) = distinct (lru_list (pset s k))"
    "length (lru_list (pset t k)) = length (lru_list (pset s k))" if "k < nsets e" for k
    using ps [OF that] by (auto dest: mset_eq_setD mset_eq_imp_distinct_iff mset_eq_length)
  have "pset_wf e t k" if "k < nsets e" for k
    using pset_wfD [OF D(2) that] ps [OF that] lru [OF that] by (simp add: pset_wf_def)
  then have "sets_ok e t" by (simp add: sets_ok_def)
  moreover have "line_ok e L H B t p" if "p < nl e" for p
  proof -
    have "in_free e t p = in_free e s p" "in_lru e t p = in_lru e s p"
      using ps [OF set_of_less [OF D(1)]] lru [OF set_of_less [OF D(1)]] by (simp_all add: in_free_def in_lru_def)
    moreover have "rmap_ok e t p = rmap_ok e s p" by (simp add: rmap_ok_def maps_line_def rest fun_eq_iff)
    ultimately show ?thesis
      using line_okD [OF D(3) that] ms by (simp add: line_ok_def meta_ok_def Let_def rest)
  qed
  moreover have "evicts_ok e B t" using D(4) ps by (simp add: evicts_ok_def rest)
  moreover have "ptes_ok e t" using D(5) ms by (simp add: ptes_ok_def maps_line_def rest)
  ultimately show ?thesis using D rest by (simp add: pinv_def lines_ok_def)
qed

text \<open>A held line becomes the one whose old content is still to be piggybacked, and back.\<close>

definition piggy_line :: "penv \<Rightarrow> nat \<Rightarrow> pset_eviction_entry \<Rightarrow> pstate \<Rightarrow> pstate" where
  "piggy_line e p x s = (let k = set_of e p; ps = pset s k in
     s\<lparr>meta := (meta s)(p := (meta s p)\<lparr>bits := {PC_piggyback}\<rparr>),
       pset := (pset s)(k := ps\<lparr>eviction_list := [x], nr_eviction_entries := 1\<rparr>),
       pee_used := (pee_used s)(p := True)\<rparr>)"

definition unpiggy_line :: "penv \<Rightarrow> nat \<Rightarrow> pstate \<Rightarrow> pstate" where
  "unpiggy_line e p s = (let k = set_of e p; ps = pset s k in
     s\<lparr>meta := (meta s)(p := (meta s p)\<lparr>bits := bits (meta s p) - {PC_piggyback}\<rparr>),
       pset := (pset s)(k := ps\<lparr>eviction_list := [], nr_eviction_entries := 0\<rparr>),
       pee_used := (pee_used s)(p := False)\<rparr>)"

lemma pinv_piggy_line:
  assumes inv: "pinv e L H None s" and p: "p \<in> H" and x: "pe_pcm x = p" "pe_slot x = Some p"
  shows "pinv e L H (Some p) (piggy_line e p x s)"
proof -
  note D = pinvD [OF inv]
  let ?s = "piggy_line e p x s" and ?k = "set_of e p"
  have pn: "p < nl e" using D(8) p by auto
  have lists: "free_head (pset ?s k) = free_head (pset s k)" "lru_list (pset ?s k) = lru_list (pset s k)"
    "nr_lru (pset ?s k) = nr_lru (pset s k)" for k by (simp_all add: piggy_line_def Let_def)
  have lp: "line_ok e L H None s p" by (rule line_okD [OF D(3) pn])
  have "sets_ok e ?s" using D(2) lists by (simp add: sets_ok_def pset_wf_def)
  moreover have "lines_ok e L H (Some p) ?s"
  proof (rule lines_okI [OF D(3), of p])
    show "line_ok e L H (Some p) ?s p"
    proof (rule line_ok_bits [OF lp])
      show "meta ?s p = (meta s p)\<lparr>bits := {PC_piggyback}\<rparr>" by (simp add: piggy_line_def Let_def)
      show "PC_valid \<in> {PC_piggyback} \<longleftrightarrow> PC_valid \<in> bits (meta s p)"
        using lp p by (simp add: line_ok_def meta_ok_def Let_def)
    qed (use p D(10) in \<open>auto simp: in_free_def in_lru_def lists\<close>, simp_all add: piggy_line_def Let_def)
    show "line_ok e L H (Some p) ?s q" if "q < nl e" "q \<noteq> p" "line_ok e L H None s q" for q
      using that lists by (subst line_ok_cong [where s = s and L = L and H = H and B = None])
         (auto simp: in_lru_def in_free_def, auto simp: piggy_line_def Let_def)
  qed
  moreover have "evicts_ok e (Some p) ?s"
    using D(4) x by (auto simp: evicts_ok_def evict_list_of_def piggy_line_def Let_def)
  moreover have "ptes_ok e ?s"
    by (rule ptes_ok_cong [OF D(5)]) (simp_all add: piggy_line_def Let_def)
  ultimately show ?thesis using D p by (auto simp: pinv_def piggy_line_def Let_def)
qed

lemma pinv_unpiggy_line:
  assumes inv: "pinv e L H (Some p) s"
  shows "pinv e L H None (unpiggy_line e p s)"
proof -
  note D = pinvD [OF inv]
  let ?s = "unpiggy_line e p s"
  have p: "p \<in> H" and pn: "p < nl e" using D(8) D(9) [of p] by auto
  have lists: "free_head (pset ?s k) = free_head (pset s k)" "lru_list (pset ?s k) = lru_list (pset s k)"
    "nr_lru (pset ?s k) = nr_lru (pset s k)" for k by (simp_all add: unpiggy_line_def Let_def)
  have lp: "line_ok e L H (Some p) s p" by (rule line_okD [OF D(3) pn])
  have "sets_ok e ?s" using D(2) lists by (simp add: sets_ok_def pset_wf_def)
  moreover have "lines_ok e L H None ?s"
  proof (rule lines_okI [OF D(3), of p])
    show "line_ok e L H None ?s p"
    proof (rule line_ok_bits [OF lp])
      show "meta ?s p = (meta s p)\<lparr>bits := bits (meta s p) - {PC_piggyback}\<rparr>"
        by (simp add: unpiggy_line_def Let_def)
      show "bits (meta s p) - {PC_piggyback} \<subseteq> {PC_valid, PC_piggyback, PC_locked}"
        using lp by (auto simp: line_ok_def)
    qed (use lp p in \<open>simp_all add: in_free_def in_lru_def lists line_ok_def\<close>, simp_all add: unpiggy_line_def Let_def)
    show "line_ok e L H None ?s q" if "q < nl e" "q \<noteq> p" "line_ok e L H (Some p) s q" for q
      using that lists by (subst line_ok_cong [where s = s and L = L and H = H and B = "Some p"])
         (auto simp: in_lru_def in_free_def, auto simp: unpiggy_line_def Let_def)
  qed
  moreover have "evicts_ok e None ?s"
    using D(4) by (auto simp: evicts_ok_def evict_list_of_def unpiggy_line_def Let_def)
  moreover have "ptes_ok e ?s"
    by (rule ptes_ok_cong [OF D(5)]) (simp_all add: unpiggy_line_def Let_def)
  ultimately show ?thesis using D by (simp add: pinv_def unpiggy_line_def Let_def)
qed

text \<open>Locking and unlocking a line.\<close>

lemma pinv_lock:
  assumes inv: "pinv e L H B s" and p: "p \<notin> H" and lru: "in_lru e s p"
  shows "pinv e (insert p L) H B (SetPcache PC_locked p s)"
proof -
  note D = pinvD [OF inv]
  let ?s = "SetPcache PC_locked p s"
  have ps: "pset ?s = pset s" by (simp add: pc_defs)
  have "lines_ok e (insert p L) H B ?s"
  proof (rule lines_okI [OF D(3), of p])
    show "line_ok e (insert p L) H B ?s p" if pn: "p < nl e"
    proof (rule line_ok_bits [OF line_okD [OF D(3) pn]])
      show "meta ?s p = (meta s p)\<lparr>bits := insert PC_locked (bits (meta s p))\<rparr>" by (simp add: pc_defs)
    qed (use lru in_lists [OF D(2,1) pn] line_okD [OF D(3) pn]
      in \<open>simp_all add: in_free_def in_lru_def ps line_ok_def\<close>, simp_all add: pc_defs)
    show "line_ok e (insert p L) H B ?s q" if "q < nl e" "q \<noteq> p" "line_ok e L H B s q" for q
      using that by (subst line_ok_cong [where s = s and L = L and H = H and B = B])
         (auto simp: in_lru_def in_free_def ps, auto simp: pc_defs)
  qed
  moreover have "ptes_ok e ?s" by (rule ptes_ok_cong [OF D(5)]) (simp_all add: pc_defs)
  ultimately show ?thesis
    using D p by (auto simp: pinv_def pc_defs sets_ok_def pset_wf_def evicts_ok_def)
qed

lemma pinv_unlock:
  assumes inv: "pinv e L H B s" and p: "p \<in> L"
  shows "p < nl e \<Longrightarrow> unlock_pcache p s = Some (ClearPcache PC_locked p s)"
    and "pinv e (L - {p}) H B (ClearPcache PC_locked p s)"
proof -
  note D = pinvD [OF inv]
  let ?s = "ClearPcache PC_locked p s"
  show "unlock_pcache p s = Some ?s" if "p < nl e"
    using line_okD [OF D(3) that] p by (simp add: unlock_pcache_def PcacheBit_def line_ok_def)
  have ps: "pset ?s = pset s" by (simp add: pc_defs)
  have "lines_ok e (L - {p}) H B ?s"
  proof (rule lines_okI [OF D(3), of p])
    show "line_ok e (L - {p}) H B ?s p" if pn: "p < nl e"
    proof (rule line_ok_bits [OF line_okD [OF D(3) pn]])
      show "meta ?s p = (meta s p)\<lparr>bits := bits (meta s p) - {PC_locked}\<rparr>" by (simp add: pc_defs)
      show "bits (meta s p) - {PC_locked} \<subseteq> {PC_valid, PC_piggyback, PC_locked}"
        using line_okD [OF D(3) pn] by (auto simp: line_ok_def)
    qed (use line_okD [OF D(3) pn]
      in \<open>simp_all add: in_free_def in_lru_def ps line_ok_def\<close>, simp_all add: pc_defs)
    show "line_ok e (L - {p}) H B ?s q" if "q < nl e" "q \<noteq> p" "line_ok e L H B s q" for q
      using that by (subst line_ok_cong [where s = s and L = L and H = H and B = B])
         (auto simp: in_lru_def in_free_def ps, auto simp: pc_defs)
  qed
  moreover have "ptes_ok e ?s" by (rule ptes_ok_cong [OF D(5)]) (simp_all add: pc_defs)
  ultimately show "pinv e (L - {p}) H B ?s"
    using D by (auto simp: pinv_def pc_defs sets_ok_def pset_wf_def evicts_ok_def)
qed

subsection \<open>Boot establishes the invariant\<close>

lemma add_free_tail_eq:
  "add_free_tail ps k s = s\<lparr>pset := (pset s)(k := (pset s k)\<lparr>free_head := free_head (pset s k) @ ps\<rparr>)\<rparr>"
  by (induction ps arbitrary: s) (simp_all add: pc_defs)

lemma init_free_lists_from_eq:
  assumes "geom_wf g" "\<forall>k \<in> set ks. k < unat (nr_cachesets g)" "distinct ks"
  shows "\<exists>s'. init_free_lists_from g ks s = Some s' \<and>
     s' = s\<lparr>pset := (\<lambda>k. if k \<in> set ks then (pset s k)\<lparr>free_head := free_head (pset s k) @
            ways_from g k (unat (PCACHE_ASSOCIATIVITY (pconfig g)))\<rparr> else pset s k)\<rparr>"
  using assms(2,3)
proof (induction ks arbitrary: s)
  case (Cons k ks)
  have w: "pcache_ways_of_set g k = Some (ways_from g k (unat (PCACHE_ASSOCIATIVITY (pconfig g))))"
    using Cons.prems by (simp add: pcache_ways_of_set_def pcache_set_to_first_pcache_meta_def)
  show ?case
    using Cons.IH [of "add_free_tail (ways_from g k (unat (PCACHE_ASSOCIATIVITY (pconfig g)))) k s"] Cons.prems
    by (auto simp: w add_free_tail_eq fun_eq_iff)
qed simp

lemma post_init_maps_eq:
  assumes "geom_wf g"
  obtains s' where "pcache_post_init_maps g s = Some s'"
    "\<And>k. k < unat (nr_cachesets g) \<Longrightarrow>
       pset s' k = init_pcache_set\<lparr>free_head := ways_from g k (unat (PCACHE_ASSOCIATIVITY (pconfig g)))\<rparr>"
    "\<And>p. p < nr_lines g \<Longrightarrow> meta s' p = init_pcache_meta"
    "ptes s' = ptes s" "rmap_used s' = rmap_used s" "pee_used s' = pee_used s"
    "piggybacker s' = piggybacker s" "bad_pcache_printed s' = bad_pcache_printed s" "ptl_held s' = ptl_held s"
    "line s' = line s" "net s' = net s"
  using init_free_lists_from_eq [OF assms, of "[0..<unat (nr_cachesets g)]"
      "init_pcache_set_map g (init_pcache_meta_map g s)"]
  by (auto simp: pcache_post_init_maps_def init_pcache_set_free_list_def init_pcache_set_map_def
      init_pcache_meta_map_def init_pcache_set_def nr_lines_def)

lemma boot_pinv:
  assumes env: "env_ok e" and z: "\<And>p. \<not> rmap_used s p" "\<And>p. \<not> pee_used s p" "piggybacker s = None"
      "\<not> bad_pcache_printed s" and pt: "\<And>ptep p. \<not> maps_line e s ptep p"
  obtains s' where "pcache_post_init_maps (geom e) s = Some s'" "pinv e {} {} None s'" "ptl_held s' = ptl_held s"
    "ptes s' = ptes s" "line s' = line s" "net s' = net s" "\<And>p. p < nl e \<Longrightarrow> in_free e s' p"
proof -
  have g: "geom_wf (geom e)" by (rule env_ok_geom [OF env])
  obtain s' where s': "pcache_post_init_maps (geom e) s = Some s'"
    and ps: "\<And>k. k < nsets e \<Longrightarrow> pset s' k =
       init_pcache_set\<lparr>free_head := ways_from (geom e) k (unat (PCACHE_ASSOCIATIVITY (pconfig (geom e))))\<rparr>"
    and ms: "\<And>p. p < nl e \<Longrightarrow> meta s' p = init_pcache_meta"
    and f: "ptes s' = ptes s" "rmap_used s' = rmap_used s" "pee_used s' = pee_used s"
      "piggybacker s' = piggybacker s" "bad_pcache_printed s' = bad_pcache_printed s" "ptl_held s' = ptl_held s"
      "line s' = line s" "net s' = net s"
    using post_init_maps_eq [OF g, of s] unfolding nsets_def nl_def by blast
  have wf: "pset_wf e s' k" if "k < nsets e" for k
    using that ways_of_set_lines [OF g, of k] distinct_ways_from [of "geom e" k] geom_wf_sets_pos [OF g]
    by (simp add: pset_wf_def ps init_pcache_set_def nl_def set_of_def nsets_def)
  have "line_ok e {} {} None s' p" if "p < nl e" for p
    using that ps [OF set_of_less [OF env]] z(1)
    by (simp add: line_ok_def meta_ok_def ms f init_pcache_meta_def in_lru_def init_pcache_set_def)
  moreover have "ptes_ok e s'" using pt by (auto simp: ptes_ok_def maps_line_def f)
  ultimately have "pinv e {} {} None s'"
    using env wf z by (simp add: pinv_def sets_ok_def lines_ok_def evicts_ok_def f ps init_pcache_set_def evict_list_of_def)
  moreover have "in_free e s' p" if "p < nl e" for p
    using wf [OF set_of_less [OF env]] that ps [OF set_of_less [OF env]] by (auto simp: pset_wf_def in_free_def init_pcache_set_def)
  ultimately show ?thesis using that s' f by blast
qed

end
