(* ===== verification/Pcache_Rmap.thy ===== *)
theory Pcache_Rmap
  imports Pcache_Inv
begin

section \<open>Reverse mappings\<close>

text \<open>
  \<open>managers/processor/pcache/rmap.c\<close>: every line keeps the list of page table entries
  that map it. This theory has the allocation of reverse mappings, the walk over them, adding and
  removing one, zapping (munmap, exit), unmapping for eviction with and without keeping the
  reverse mappings reserved, write protection and reference bit collection. Moving an entry
  (mremap) allocates lines and is in \<open>Pcache_Fault\<close>.
\<close>

definition ENOMEM :: int where "ENOMEM = 12"
definition EAGAIN :: int where "EAGAIN = 11"

subsection \<open>Allocation\<close>

definition alloc_pcache_rmap :: "penv \<Rightarrow> nat \<Rightarrow> pstate \<Rightarrow> (nat option option \<times> pstate) option" where
  "alloc_pcache_rmap e p s = do {
     i \<leftarrow> pcache_meta_index (geom e) p;
     if rmap_used s i
     then (case kzalloc e s of
             (True, s) \<Rightarrow> Some (Some None, s)
           | (False, s) \<Rightarrow> Some (None, s))
     else Some (Some (Some i), s\<lparr>rmap_used := (rmap_used s)(i := True)\<rparr>) }"

definition free_pcache_rmap :: "pcache_rmap \<Rightarrow> pstate \<Rightarrow> pstate option" where
  "free_pcache_rmap r s = do {
     bug_on (rm_reserved r);
     (case rm_slot r of
        None \<Rightarrow> Some s
      | Some i \<Rightarrow> do {
          bug_on (\<not> rmap_used s i);
          Some (s\<lparr>rmap_used := (rmap_used s)(i := False)\<rparr>) }) }"

subsection \<open>Finding the page table entry\<close>

text \<open>
  \<open>None\<close> as inner result is the \<open>NULL\<close> returned after \<open>report_bad_rmap\<close>.
\<close>

definition rmap_get_pte_locked ::
  "penv \<Rightarrow> nat \<Rightarrow> pcache_rmap \<Rightarrow> pstate \<Rightarrow> (nat option \<times> pstate) option" where
  "rmap_get_pte_locked e p r s =
     (let ptep = pte_ptr e (owner_mm r) (rm_address r) in
      if ptep \<noteq> page_table r then Some (None, s)
      else do {
        pfn \<leftarrow> pcache_meta_to_pfn (geom e) p;
        if pfn \<noteq> pte_pfn (ptes s ptep) then Some (None, s)
        else do {
          s \<leftarrow> spin_lock_ptl (pte_lockptr e (owner_mm r) (rm_address r)) s;
          Some (Some ptep, s) } })"

definition rmap_pte_unlock :: "penv \<Rightarrow> pcache_rmap \<Rightarrow> pstate \<Rightarrow> pstate" where
  "rmap_pte_unlock e r s = spin_unlock_ptl (pte_lockptr e (owner_mm r) (rm_address r)) s"

text \<open>The second component is \<open>*pte_contention\<close>, left alone on the two mismatches.\<close>

definition rmap_get_pte_trylock ::
  "penv \<Rightarrow> nat \<Rightarrow> pcache_rmap \<Rightarrow> bool \<Rightarrow> pstate \<Rightarrow> (nat option \<times> bool \<times> pstate) option" where
  "rmap_get_pte_trylock e p r contention s =
     (let ptep = pte_ptr e (owner_mm r) (rm_address r);
          ptl = pte_lockptr e (owner_mm r) (rm_address r) in
      if ptep \<noteq> page_table r then Some (None, contention, s)
      else do {
        pfn \<leftarrow> pcache_meta_to_pfn (geom e) p;
        if pfn \<noteq> pte_pfn (ptes s ptep) then Some (None, contention, s)
        else if ptl_busy e ptl \<or> ptl \<in> ptl_held s then Some (None, True, s)
        else do { s \<leftarrow> spin_lock_ptl ptl s; Some (Some ptep, False, s) } })"

definition rmap_get_pte_unlocked :: "penv \<Rightarrow> nat \<Rightarrow> u64 \<Rightarrow> nat" where
  "rmap_get_pte_unlocked e mm address = pte_ptr e mm address"

definition validate_pcache_rmap :: "penv \<Rightarrow> nat \<Rightarrow> pcache_rmap \<Rightarrow> pstate \<Rightarrow> unit option" where
  "validate_pcache_rmap e p r s =
     (let ptep = rmap_get_pte_unlocked e (owner_mm r) (rm_address r) in
      do {
        bug_on (ptep \<noteq> page_table r);
        pfn \<leftarrow> pcache_meta_to_pfn (geom e) p;
        bug_on (pfn \<noteq> pte_pfn (ptes s ptep)) })"

subsection \<open>Adding and removing\<close>

definition pcache_add_rmap ::
  "penv \<Rightarrow> nat \<Rightarrow> nat \<Rightarrow> u64 \<Rightarrow> nat \<Rightarrow> nat \<Rightarrow> rmap_caller \<Rightarrow> pstate \<Rightarrow> (int \<times> pstate) option" where
  "pcache_add_rmap e p ptep address mm proc caller s = do {
     bug_on (PcacheBit PC_locked p s);
     s \<leftarrow> lock_pcache e p s;
     (a, s) \<leftarrow> alloc_pcache_rmap e p s;
     (case a of
        None \<Rightarrow> do { s \<leftarrow> unlock_pcache p s; Some (- ENOMEM, s) }
      | Some slot \<Rightarrow> do {
          bug_on (\<not> thread_group_leader e proc);
          let r = \<lparr>rm_slot = slot, rm_reserved = False, page_table = ptep, owner_mm = mm,
                   owner_process = proc, rm_caller = caller, rm_address = address AND PAGE_MASK\<rparr>;
          bug_on (\<exists>pos \<in> set (rmap (meta s p)).
                    page_table pos = ptep \<or> owner_mm pos = mm \<or> owner_process pos = proc);
          let s = upd_meta p (\<lambda>m. m\<lparr>rmap := r # rmap m, mapcount := mapcount m + 1\<rparr>) s;
          bug_on (PcacheBit PC_reclaim p s \<and> \<not> PcacheBit PC_valid p s);
          let s = SetPcache PC_valid p s;
          validate_pcache_rmap e p r s;
          s \<leftarrow> unlock_pcache p s;
          Some (0, s) }) }"

definition pcache_remove_one_rmap :: "nat \<Rightarrow> pcache_rmap \<Rightarrow> pstate \<Rightarrow> pstate option" where
  "pcache_remove_one_rmap p r s = do {
     let s = upd_meta p (\<lambda>m. m\<lparr>rmap := remove1 r (rmap m)\<rparr>) s;
     s \<leftarrow> free_pcache_rmap r s;
     (case pcache_mapcount_dec_and_test p s of
        (z, s) \<Rightarrow> Some (if z then ClearPcache PC_valid p s else s)) }"

subsection \<open>The walk\<close>

text \<open>
  The callback gets its argument \<open>a\<close> and returns it updated. The loop is
  \<open>list_for_each_entry_safe\<close>: a callback may delete the reverse mapping it is called with,
  and only that one.
\<close>

type_synonym 'a rmap_one =
  "pcache_rmap \<Rightarrow> 'a \<Rightarrow> pstate \<Rightarrow> (pcache_rmap_status \<times> 'a \<times> pstate) option"

fun rmap_walk_from ::
  "'a rmap_one \<Rightarrow> (pstate \<Rightarrow> bool) \<Rightarrow> pcache_rmap list \<Rightarrow> pcache_rmap_status \<Rightarrow> 'a \<Rightarrow> pstate
     \<Rightarrow> (pcache_rmap_status \<times> 'a \<times> pstate) option" where
  "rmap_walk_from one done_fn [] ret a s = Some (ret, a, s)"
| "rmap_walk_from one done_fn (r # rs) ret a s = do {
     (ret, a, s) \<leftarrow> one r a s;
     if ret \<noteq> PCACHE_RMAP_AGAIN \<or> done_fn s then Some (ret, a, s)
     else rmap_walk_from one done_fn rs ret a s }"

definition rmap_walk ::
  "nat \<Rightarrow> 'a rmap_one \<Rightarrow> (pstate \<Rightarrow> bool) \<Rightarrow> 'a \<Rightarrow> pstate \<Rightarrow> (pcache_rmap_status \<times> 'a \<times> pstate) option" where
  "rmap_walk p one done_fn a s = do {
     bug_on (\<not> PcacheBit PC_locked p s);
     rmap_walk_from one done_fn (rmap (meta s p)) PCACHE_RMAP_AGAIN a s }"

abbreviation (input) no_done :: "pstate \<Rightarrow> bool" where
  "no_done \<equiv> \<lambda>_. False"

definition pcache_mapcount_is_zero :: "nat \<Rightarrow> pstate \<Rightarrow> bool" where
  "pcache_mapcount_is_zero p s \<longleftrightarrow> pcache_mapcount p s = 0"

definition matched_rmap :: "pcache_rmap \<Rightarrow> nat \<Rightarrow> nat \<Rightarrow> u64 \<Rightarrow> bool" where
  "matched_rmap r ptep mm address \<longleftrightarrow>
     page_table r = ptep \<and> owner_mm r = mm \<and> rm_address r = address"

definition pcache_remove_rmap_one :: "nat \<Rightarrow> nat \<Rightarrow> nat \<Rightarrow> u64 \<Rightarrow> bool rmap_one" where
  "pcache_remove_rmap_one p ptep mm address r removed s =
     (if matched_rmap r ptep mm address
      then do { s \<leftarrow> pcache_remove_one_rmap p r s; Some (PCACHE_RMAP_SUCCEED, True, s) }
      else Some (PCACHE_RMAP_AGAIN, removed, s))"

text \<open>A reverse mapping that is not found is only warned about.\<close>

definition pcache_remove_rmap :: "nat \<Rightarrow> nat \<Rightarrow> u64 \<Rightarrow> nat \<Rightarrow> pstate \<Rightarrow> pstate option" where
  "pcache_remove_rmap p ptep address mm s = do {
     bug_on (\<not> PcacheBit PC_locked p s);
     (_, _, s) \<leftarrow> rmap_walk p (pcache_remove_rmap_one p ptep mm (address AND PAGE_MASK)) no_done False s;
     Some s }"

subsection \<open>Zapping one entry\<close>

definition pcache_zap_pte_one :: "nat \<Rightarrow> nat \<Rightarrow> nat \<Rightarrow> u64 \<Rightarrow> bool rmap_one" where
  "pcache_zap_pte_one p ptep mm address r zapped s =
     (if matched_rmap r ptep mm address
      then do {
        s \<leftarrow> pcache_remove_one_rmap p r (pte_clear (page_table r) s);
        Some (PCACHE_RMAP_SUCCEED, True, s) }
      else Some (PCACHE_RMAP_AGAIN, zapped, s))"

text \<open>
  The lock order is line before entry, and the caller holds the entry's lock. If the line is
  busy, a reference keeps it alive while the lock is dropped and both are taken in order; \<open>False\<close>
  is the case where the entry has changed meanwhile, and then the caller still has to drop the reference.
\<close>

definition lock_pcache_pte_held ::
  "penv \<Rightarrow> nat \<Rightarrow> nat \<Rightarrow> pte \<Rightarrow> nat \<Rightarrow> pstate \<Rightarrow> (bool \<times> pstate) option" where
  "lock_pcache_pte_held e p ptep ptent ptl s =
     (case trylock_pcache p s of
        (True, s) \<Rightarrow> Some (True, s)
      | (False, s) \<Rightarrow> do {
          s \<leftarrow> get_pcache p s;
          s \<leftarrow> lock_pcache e p (spin_unlock_ptl ptl s);
          s \<leftarrow> spin_lock_ptl ptl s;
          if ptes s ptep \<noteq> ptent
          then do { s \<leftarrow> unlock_pcache p s; Some (False, s) }
          else do { s \<leftarrow> put_pcache e p s; Some (True, s) } })"

definition pcache_zap_pte ::
  "penv \<Rightarrow> nat \<Rightarrow> u64 \<Rightarrow> pte \<Rightarrow> nat \<Rightarrow> nat \<Rightarrow> pstate \<Rightarrow> (int \<times> pstate) option" where
  "pcache_zap_pte e mm address ptent ptep ptl s =
     (case pte_to_pcache_meta (geom e) ptent of
        None \<Rightarrow> Some (0, s)
      | Some p \<Rightarrow> do {
          (locked, s) \<leftarrow> lock_pcache_pte_held e p ptep ptent ptl s;
          if \<not> locked then do { s \<leftarrow> put_pcache e p s; Some (- EAGAIN, s) }
          else do {
            (_, zapped, s) \<leftarrow>
              rmap_walk p (pcache_zap_pte_one p ptep mm (address AND PAGE_MASK)) no_done False s;
            s \<leftarrow> unlock_pcache p s;
            if \<not> zapped then Some (0, s)
            else do { s \<leftarrow> put_pcache e p s; Some (0, s) } } })"

subsection \<open>Unmapping all entries\<close>

definition unmap_pte :: "pcache_rmap \<Rightarrow> nat \<Rightarrow> bool \<Rightarrow> pstate \<Rightarrow> bool \<times> pstate" where
  "unmap_pte r ptep dirty s =
     (case ptep_get_and_clear ptep s of
        (pteval, s) \<Rightarrow>
          if pte_present pteval
          then (dirty \<or> pte_dirty pteval,
                flush_tlb_mm_range (owner_mm r) (rm_address r) (rm_address r + PAGE_SIZE - 1) s)
          else (dirty, s))"

definition pcache_try_to_unmap_one :: "penv \<Rightarrow> nat \<Rightarrow> bool rmap_one" where
  "pcache_try_to_unmap_one e p r dirty s = do {
     bug_on (rm_reserved r);
     (q, s) \<leftarrow> rmap_get_pte_locked e p r s;
     (case q of
        None \<Rightarrow> Some (PCACHE_RMAP_AGAIN, dirty, s)
      | Some ptep \<Rightarrow>
          (case unmap_pte r ptep dirty s of
             (dirty, s) \<Rightarrow> do {
               s \<leftarrow> pcache_remove_one_rmap p r s;
               Some (PCACHE_RMAP_AGAIN, dirty, rmap_pte_unlock e r s) })) }"

definition SetRmapReserved :: "nat \<Rightarrow> pcache_rmap \<Rightarrow> pstate \<Rightarrow> pstate" where
  "SetRmapReserved p r s =
     upd_meta p (\<lambda>m. m\<lparr>rmap := map (\<lambda>x. if x = r then x\<lparr>rm_reserved := True\<rparr> else x) (rmap m)\<rparr>) s"

definition ClearRmapReserved :: "nat \<Rightarrow> pcache_rmap \<Rightarrow> pstate \<Rightarrow> pstate" where
  "ClearRmapReserved p r s =
     upd_meta p (\<lambda>m. m\<lparr>rmap := map (\<lambda>x. if x = r then x\<lparr>rm_reserved := False\<rparr> else x) (rmap m)\<rparr>) s"

definition pcache_try_to_unmap_reserve_one :: "penv \<Rightarrow> nat \<Rightarrow> bool rmap_one" where
  "pcache_try_to_unmap_reserve_one e p r dirty s = do {
     bug_on (rm_reserved r);
     (q, s) \<leftarrow> rmap_get_pte_locked e p r s;
     (case q of
        None \<Rightarrow> Some (PCACHE_RMAP_AGAIN, dirty, s)
      | Some ptep \<Rightarrow>
          (case unmap_pte r ptep dirty s of
             (dirty, s) \<Rightarrow> Some (PCACHE_RMAP_AGAIN, dirty, rmap_pte_unlock e r (SetRmapReserved p r s)))) }"

definition pcache_try_to_unmap :: "penv \<Rightarrow> nat \<Rightarrow> pstate \<Rightarrow> (pcache_rmap_status \<times> pstate) option" where
  "pcache_try_to_unmap e p s = do {
     bug_on (\<not> PcacheBit PC_locked p s);
     (ret, _, s) \<leftarrow> rmap_walk p (pcache_try_to_unmap_one e p) (pcache_mapcount_is_zero p) False s;
     Some (if pcache_mapcount p s = 0 then PCACHE_RMAP_SUCCEED else ret, s) }"

definition pcache_try_to_unmap_check_dirty :: "penv \<Rightarrow> nat \<Rightarrow> pstate \<Rightarrow> (bool \<times> pstate) option" where
  "pcache_try_to_unmap_check_dirty e p s = do {
     bug_on (\<not> PcacheBit PC_locked p s);
     (_, dirty, s) \<leftarrow> rmap_walk p (pcache_try_to_unmap_one e p) (pcache_mapcount_is_zero p) False s;
     Some (dirty, s) }"

definition pcache_try_to_unmap_reserve :: "penv \<Rightarrow> nat \<Rightarrow> pstate \<Rightarrow> (pcache_rmap_status \<times> pstate) option" where
  "pcache_try_to_unmap_reserve e p s = do {
     bug_on (\<not> PcacheBit PC_locked p s);
     (_, _, s) \<leftarrow> rmap_walk p (pcache_try_to_unmap_reserve_one e p) (pcache_mapcount_is_zero p) False s;
     Some (PCACHE_RMAP_SUCCEED, s) }"

definition pcache_try_to_unmap_reserve_check_dirty ::
  "penv \<Rightarrow> nat \<Rightarrow> pstate \<Rightarrow> (bool \<times> pstate) option" where
  "pcache_try_to_unmap_reserve_check_dirty e p s = do {
     bug_on (\<not> PcacheBit PC_locked p s);
     (_, dirty, s) \<leftarrow>
       rmap_walk p (pcache_try_to_unmap_reserve_one e p) (pcache_mapcount_is_zero p) False s;
     Some (dirty, s) }"

definition pcache_free_reserved_rmap_one :: "nat \<Rightarrow> unit rmap_one" where
  "pcache_free_reserved_rmap_one p r u s = do {
     bug_on (\<not> rm_reserved r);
     s \<leftarrow> pcache_remove_one_rmap p (r\<lparr>rm_reserved := False\<rparr>) (ClearRmapReserved p r s);
     Some (PCACHE_RMAP_AGAIN, u, s) }"

definition pcache_free_reserved_rmap :: "nat \<Rightarrow> pstate \<Rightarrow> (pcache_rmap_status \<times> pstate) option" where
  "pcache_free_reserved_rmap p s = do {
     bug_on (\<not> PcacheBit PC_locked p s);
     (_, _, s) \<leftarrow> rmap_walk p (pcache_free_reserved_rmap_one p) no_done () s;
     Some (PCACHE_RMAP_SUCCEED, s) }"

subsection \<open>Write protection and reference bits\<close>

definition pcache_wrprotect_one :: "penv \<Rightarrow> nat \<Rightarrow> int rmap_one" where
  "pcache_wrprotect_one e p r protected s = do {
     (q, s) \<leftarrow> rmap_get_pte_locked e p r s;
     (case q of
        None \<Rightarrow> Some (PCACHE_RMAP_AGAIN, protected, s)
      | Some ptep \<Rightarrow>
          if \<not> pte_write (ptes s ptep)
          then Some (PCACHE_RMAP_AGAIN, protected, rmap_pte_unlock e r s)
          else (case ptep_get_and_clear ptep s of
            (entry, s) \<Rightarrow>
              let entry = pte_mkclean (pte_wrprotect entry);
                  s = pte_set ptep entry s;
                  s = (if pte_present entry
                       then flush_tlb_mm_range (owner_mm r) (rm_address r) (rm_address r + PAGE_SIZE - 1) s
                       else s)
              in Some (PCACHE_RMAP_AGAIN, protected + 1, rmap_pte_unlock e r s))) }"

definition pcache_wrprotect :: "penv \<Rightarrow> nat \<Rightarrow> pstate \<Rightarrow> (int \<times> pstate) option" where
  "pcache_wrprotect e p s = do {
     bug_on (\<not> PcacheBit PC_locked p s);
     if \<not> pcache_mapped p s then Some (0, s)
     else do {
       (_, protected, s) \<leftarrow> rmap_walk p (pcache_wrprotect_one e p) no_done 0 s;
       Some (protected, s) } }"

record pcache_referenced_control =
  prc_pte_contention :: bool
  prc_referenced :: int
  prc_mapcount :: int

definition pcache_referenced_one :: "penv \<Rightarrow> nat \<Rightarrow> pcache_referenced_control rmap_one" where
  "pcache_referenced_one e p r prc s = do {
     (q, s) \<leftarrow> rmap_get_pte_locked e p r s;
     (case q of
        None \<Rightarrow> Some (PCACHE_RMAP_AGAIN, prc, s)
      | Some ptep \<Rightarrow>
          (case ptep_clear_flush_young ptep s of
             (young, s) \<Rightarrow>
               let prc = (if young then prc\<lparr>prc_referenced := prc_referenced prc + 1\<rparr> else prc);
                   s = rmap_pte_unlock e r s;
                   prc = prc\<lparr>prc_mapcount := prc_mapcount prc - 1\<rparr>
               in Some (if prc_mapcount prc = 0 then PCACHE_RMAP_SUCCEED else PCACHE_RMAP_AGAIN, prc, s))) }"

definition pcache_referenced :: "penv \<Rightarrow> nat \<Rightarrow> pstate \<Rightarrow> (int \<times> pstate) option" where
  "pcache_referenced e p s = do {
     bug_on (\<not> PcacheBit PC_locked p s);
     if \<not> pcache_mapped p s then Some (0, s)
     else do {
       (_, prc, s) \<leftarrow> rmap_walk p (pcache_referenced_one e p) no_done
          \<lparr>prc_pte_contention = False, prc_referenced = 0, prc_mapcount = pcache_mapcount p s\<rparr> s;
       Some (prc_referenced prc, s) } }"

text \<open>The contention flag is an uninitialised local in C; it is only read after it was set.\<close>

definition pcache_referenced_trylock_one :: "penv \<Rightarrow> nat \<Rightarrow> pcache_referenced_control rmap_one" where
  "pcache_referenced_trylock_one e p r prc s = do {
     (q, contention, s) \<leftarrow> rmap_get_pte_trylock e p r False s;
     (case q of
        None \<Rightarrow> Some (PCACHE_RMAP_SUCCEED, prc\<lparr>prc_pte_contention := True\<rparr>, s)
      | Some ptep \<Rightarrow>
          if contention then Some (PCACHE_RMAP_SUCCEED, prc\<lparr>prc_pte_contention := True\<rparr>, s)
          else (case ptep_clear_flush_young ptep s of
            (young, s) \<Rightarrow>
              let prc = (if young then prc\<lparr>prc_referenced := 1\<rparr> else prc);
                  s = rmap_pte_unlock e r s in
              if prc_referenced prc \<noteq> 0 then Some (PCACHE_RMAP_SUCCEED, prc, s)
              else let prc = prc\<lparr>prc_mapcount := prc_mapcount prc - 1\<rparr>
                in Some (if prc_mapcount prc = 0 then PCACHE_RMAP_SUCCEED else PCACHE_RMAP_AGAIN, prc, s))) }"

definition pcache_referenced_trylock :: "penv \<Rightarrow> nat \<Rightarrow> pstate \<Rightarrow> (int \<times> bool \<times> pstate) option" where
  "pcache_referenced_trylock e p s = do {
     bug_on (\<not> PcacheBit PC_locked p s);
     let prc = \<lparr>prc_pte_contention = False, prc_referenced = 0, prc_mapcount = pcache_mapcount p s\<rparr>;
     if \<not> pcache_mapped p s then Some (prc_referenced prc, prc_pte_contention prc, s)
     else do {
       (_, prc, s) \<leftarrow> rmap_walk p (pcache_referenced_trylock_one e p) no_done prc s;
       Some (prc_referenced prc, prc_pte_contention prc, s) } }"

subsection \<open>Facts about single steps\<close>

declare alloc_pcache_rmap_def [pc_defs] free_pcache_rmap_def [pc_defs] rmap_get_pte_unlocked_def [pc_defs]
  rmap_pte_unlock_def [pc_defs] SetRmapReserved_def [pc_defs] ClearRmapReserved_def [pc_defs]

lemma page_walkD:
  assumes "env_ok e"
  shows "pte_ptr e mm (a AND PAGE_MASK) = pte_ptr e mm a"
    and "pte_lockptr e mm (a AND PAGE_MASK) = pte_lockptr e mm a"
    and "pte_ptr e mm a = pte_ptr e mm' a' \<Longrightarrow> mm = mm' \<and> a AND PAGE_MASK = a' AND PAGE_MASK"
  using assms unfolding env_ok_def page_walk_ok_def by blast+

lemma page_mask_idem [simp]: "(a AND PAGE_MASK) AND PAGE_MASK = a AND PAGE_MASK"
  by (simp add: and.assoc)

lemma set_ref_same: "refcount (meta s p) = n \<Longrightarrow> set_ref p n s = s"
  by (simp add: set_ref_def fun_upd_idem)

definition new_rmap :: "penv \<Rightarrow> nat \<Rightarrow> nat \<Rightarrow> u64 \<Rightarrow> nat \<Rightarrow> nat \<Rightarrow> rmap_caller \<Rightarrow> pstate \<Rightarrow> pcache_rmap" where
  "new_rmap e p ptep address mm proc caller s =
     \<lparr>rm_slot = (if rmap_used s p then None else Some p), rm_reserved = False, page_table = ptep,
      owner_mm = mm, owner_process = proc, rm_caller = caller, rm_address = address AND PAGE_MASK\<rparr>"

text \<open>
  Adding a reverse mapping to a line whose entry has just been set: the lock is taken and
  released, and what remains is the mapping.
\<close>

lemma pcache_add_rmap_eq:
  assumes env: "env_ok e" and p: "p < nl e" and nl: "PC_locked \<notin> bits (meta s p)" "PC_reclaim \<notin> bits (meta s p)"
    and ptep: "ptep = pte_ptr e mm address" and v: "pte_to_pcache_meta (geom e) v = Some p"
    and proc: "thread_group_leader e proc"
    and dup: "\<forall>pos \<in> set (rmap (meta s p)). page_table pos \<noteq> ptep \<and> owner_mm pos \<noteq> mm \<and> owner_process pos \<noteq> proc"
    and mem: "\<not> rmap_used s p \<or> kzalloc_ok e (nr_kzalloc s)"
  shows "pcache_add_rmap e p ptep address mm proc caller (pte_set ptep v s) =
     Some (0, (map_line p (new_rmap e p ptep address mm proc caller s) v s)
                \<lparr>nr_kzalloc := (if rmap_used s p then Suc (nr_kzalloc s) else nr_kzalloc s)\<rparr>)"
proof -
  have pfn: "pcache_meta_to_pfn (geom e) p = Some (pte_pfn v)" by (rule frame_in_line(2) [OF env v])
  have b: "insert PC_valid (insert PC_locked (bits (meta s p))) - {PC_locked} = insert PC_valid (bits (meta s p))"
    using nl by auto
  have "\<not> (\<exists>pos \<in> set (rmap (meta s p)). page_table pos = ptep \<or> owner_mm pos = mm \<or> owner_process pos = proc)"
    using dup by blast
  then show ?thesis
    using p nl proc mem pfn
    by (cases "rmap_used s p";
        simp add: pcache_add_rmap_def lock_pcache_def PcacheBit_def pte_set_def,
        simp add: SetPcache_def alloc_pcache_rmap_def meta_index kzalloc_def upd_meta_def,
        simp add: validate_pcache_rmap_def Let_def rmap_get_pte_unlocked_def,
        simp add: PcacheBit_def SetPcache_def upd_meta_def unlock_pcache_def ClearPcache_def,
        simp add: ptep page_walkD(1) [OF env] map_line_def Let_def new_rmap_def b)
qed

lemma pcache_add_rmap_nomem:
  assumes "p < nl e" "PC_locked \<notin> bits (meta s p)" "rmap_used s p" "\<not> kzalloc_ok e (nr_kzalloc s)"
  shows "pcache_add_rmap e p ptep address mm proc caller s = Some (- ENOMEM, s\<lparr>nr_kzalloc := Suc (nr_kzalloc s)\<rparr>)"
  using assms
  by (simp add: pcache_add_rmap_def lock_pcache_def pc_defs meta_index insert_Diff_if fun_upd_idem)

lemma pcache_remove_one_rmap_eq:
  assumes "\<not> rm_reserved r" "\<And>i. rm_slot r = Some i \<Longrightarrow> rmap_used s i"
  shows "pcache_remove_one_rmap p r (pte_clear (page_table r) s) = Some (unmap_line p r s)"
  using assms
  by (auto simp: pcache_remove_one_rmap_def pc_defs unmap_line_def Let_def split: option.splits)

lemma rmap_walk_first:
  assumes "r \<in> set rs" "P r" "\<And>r'. r' \<in> set rs \<Longrightarrow> P r' \<Longrightarrow> r' = r"
    and "\<And>r'. \<not> P r' \<Longrightarrow> one r' a s = Some (PCACHE_RMAP_AGAIN, a, s)"
    and "one r a s = Some (PCACHE_RMAP_SUCCEED, a', s')"
  shows "rmap_walk_from one no_done rs ret a s = Some (PCACHE_RMAP_SUCCEED, a', s')"
  using assms
proof (induction rs arbitrary: ret)
  case (Cons x rs)
  show ?case
  proof (cases "P x")
    case True
    then have "x = r" by (intro Cons.prems(3)) simp_all
    then show ?thesis using Cons.prems(5) by simp
  next
    case False
    then have r: "r \<in> set rs" using Cons.prems(1,2) by auto
    have "rmap_walk_from one no_done rs PCACHE_RMAP_AGAIN a s = Some (PCACHE_RMAP_SUCCEED, a', s')"
      by (rule Cons.IH [OF r Cons.prems(2) Cons.prems(3) [OF list.set_intros(2)] Cons.prems(4,5)])
    then show ?thesis using Cons.prems(4) [OF False] by simp
  qed
qed simp

subsection \<open>Zapping keeps the invariant\<close>

text \<open>The reverse mapping of a present entry, found through the invariant.\<close>

lemma rmap_of_pte:
  assumes inv: "pinv e L H B s" and m: "maps_line e s ptep p" and ptep: "ptep = pte_ptr e mm address"
  obtains r where "r \<in> set (rmap (meta s p))" "rmap_ok e s p r" "page_table r = ptep" "owner_mm r = mm"
    "rm_address r = address AND PAGE_MASK" "p < nl e"
    "\<And>r'. r' \<in> set (rmap (meta s p)) \<Longrightarrow> page_table r' = ptep \<Longrightarrow> r' = r"
proof -
  note D = pinvD [OF inv]
  have p: "p < nl e" using m frame_in_line(1) [OF D(1)] unfolding maps_line_def by blast
  obtain r where r: "r \<in> set (rmap (meta s p))" "page_table r = ptep"
    using D(5) m by (auto simp: ptes_ok_def)
  have mo: "meta_ok e s p" using line_okD [OF D(3) p] by (simp add: line_ok_def)
  then have ro: "rmap_ok e s p r" and d: "distinct (map page_table (rmap (meta s p)))"
    using r by (auto simp: meta_ok_def Let_def)
  have "owner_mm r = mm \<and> rm_address r = address AND PAGE_MASK"
    using page_walkD(3) [OF D(1), of "owner_mm r" "rm_address r" mm address] ro r(2) ptep
    by (auto simp: rmap_ok_def)
  moreover have "r' = r" if "r' \<in> set (rmap (meta s p))" "page_table r' = ptep" for r'
    using d r that by (auto simp: distinct_map inj_on_def)
  ultimately show ?thesis using that r ro p by blast
qed

lemma rmap_slot_used:
  assumes "meta_ok e s p" "r \<in> set (rmap (meta s p))" "rm_slot r = Some i"
  shows "rmap_used s i"
proof -
  have "i = p" using assms by (auto simp: meta_ok_def Let_def rmap_ok_def)
  moreover have "filter (\<lambda>r. rm_slot r = Some p) (rmap (meta s p)) \<noteq> []"
    using assms(2,3) calculation by (auto simp: filter_empty_conv)
  ultimately show ?thesis using assms(1) by (auto simp: meta_ok_def Let_def split: if_splits)
qed

definition zapped_line :: "penv \<Rightarrow> nat \<Rightarrow> pcache_rmap \<Rightarrow> pstate \<Rightarrow> pstate" where
  "zapped_line e p r s =
     (if length (rmap (meta s p)) = 1 then free_line e p (unmap_line p r s)
      else set_ref p (refcount (meta s p) - 1) (unmap_line p r s))"

lemma pcache_zap_pte_eq:
  assumes inv: "pinv e L H B s" and m: "maps_line e s ptep p" and ptep: "ptep = pte_ptr e mm address"
    and pL: "p \<notin> L"
  obtains r where "r \<in> set (rmap (meta s p))" "page_table r = ptep" "owner_mm r = mm"
    "rm_address r = address AND PAGE_MASK" "p < nl e"
    "pcache_zap_pte e mm address (ptes s ptep) ptep ptl s = Some (0, zapped_line e p r s)"
proof -
  note D = pinvD [OF inv]
  obtain r where r: "r \<in> set (rmap (meta s p))" "rmap_ok e s p r" "page_table r = ptep" "owner_mm r = mm"
      "rm_address r = address AND PAGE_MASK" and p: "p < nl e"
    and un: "\<And>r'. r' \<in> set (rmap (meta s p)) \<Longrightarrow> page_table r' = ptep \<Longrightarrow> r' = r"
    by (rule rmap_of_pte [OF inv m ptep]) blast
  have lp: "line_ok e L H B s p" by (rule line_okD [OF D(3) p])
  then have mo: "meta_ok e s p" and bits: "bits (meta s p) \<subseteq> {PC_valid, PC_piggyback}"
    and ref: "refcount (meta s p) = mapcount (meta s p)" and B: "PC_piggyback \<notin> bits (meta s p)"
    and mc: "mapcount (meta s p) = int (length (rmap (meta s p)))"
    using r(1) D(9) pL by (auto simp: line_ok_def meta_ok_def Let_def split: if_splits)
  have nlk: "PC_locked \<notin> bits (meta s p)" using bits by auto
  let ?sl = "SetPcache PC_locked p s"
  let ?u = "unmap_line p r ?sl"
  have us: "\<And>i. rm_slot r = Some i \<Longrightarrow> rmap_used ?sl i"
    using rmap_slot_used [OF mo r(1)] by (simp add: pc_defs)
  have "pcache_remove_one_rmap p r (pte_clear ptep ?sl) = Some ?u"
    using pcache_remove_one_rmap_eq [of r ?sl p, OF _ us] r(2,3) by (simp add: rmap_ok_def)
  then have one: "pcache_zap_pte_one p ptep mm (address AND PAGE_MASK) r False ?sl = Some (PCACHE_RMAP_SUCCEED, True, ?u)"
    using r(3-5) by (simp add: pcache_zap_pte_one_def matched_rmap_def)
  have rs: "rmap (meta ?sl p) = rmap (meta s p)" by (simp add: pc_defs)
  have "rmap_walk_from (pcache_zap_pte_one p ptep mm (address AND PAGE_MASK)) no_done (rmap (meta ?sl p))
      PCACHE_RMAP_AGAIN False ?sl = Some (PCACHE_RMAP_SUCCEED, True, ?u)"
    unfolding rs
    by (rule rmap_walk_first [where P = "\<lambda>r. matched_rmap r ptep mm (address AND PAGE_MASK)" and r = r])
       (use r(1,3-5) one in \<open>auto simp: pcache_zap_pte_one_def matched_rmap_def intro: un\<close>)
  moreover have "unlock_pcache p ?u = Some (unmap_line p r s)"
  proof -
    have "insert PC_locked (bits (meta s p)) - {PC_locked} = bits (meta s p)"
      "insert PC_locked (bits (meta s p)) - {PC_valid} - {PC_locked} = bits (meta s p) - {PC_valid}"
      using nlk by auto
    then show ?thesis
      by (cases "rm_slot r"; cases "mapcount (meta s p) = 1"; simp add: pc_defs unmap_line_def Let_def)
  qed
  ultimately have "pcache_zap_pte e mm address (ptes s ptep) ptep ptl s =
      (do { s \<leftarrow> put_pcache e p (unmap_line p r s); Some (0, s) })"
    using m nlk by (simp add: pcache_zap_pte_def maps_line_def lock_pcache_pte_held_def rmap_walk_def
        trylock_pcache_def PcacheBit_def) (simp add: pc_defs)
  moreover have "put_pcache e p (unmap_line p r s) = Some (zapped_line e p r s)"
  proof (cases "length (rmap (meta s p)) = 1")
    case True
    have "put_pcache e p (unmap_line p r s) = Some (free_line e p (unmap_line p r s))"
      by (rule put_pcache_last) (use ref mc True p bits B in \<open>auto simp: unmap_line_def Let_def PCACHE_FLAGS_CHECK_AT_FREE_def\<close>)
    then show ?thesis using True by (simp add: zapped_line_def)
  next
    case False
    have "length (rmap (meta s p)) \<noteq> 0" using r(1) by auto
    then have "put_pcache e p (unmap_line p r s) = Some (set_ref p (refcount (meta s p) - 1) (unmap_line p r s))"
      using False ref mc by (subst put_pcache_more) (auto simp: unmap_line_def Let_def set_ref_def)
    then show ?thesis using False by (simp add: zapped_line_def)
  qed
  ultimately show ?thesis using that r p by simp
qed

lemma pinv_zapped:
  assumes inv: "pinv e L H B s" and p: "p < nl e" and r: "r \<in> set (rmap (meta s p))" and pL: "p \<notin> L"
  shows "pinv e L H B (zapped_line e p r s)"
proof (cases "length (rmap (meta s p)) = 1")
  case True
  note D = pinvD [OF inv]
  have rs: "rmap (meta s p) = [r]" using True r by (cases "rmap (meta s p)") auto
  have lp: "line_ok e L H B s p" by (rule line_okD [OF D(3) p])
  have pH: "p \<notin> H" using lp rs by (auto simp: line_ok_def)
  then have B: "B \<noteq> Some p" using D(9) by blast
  have ref: "refcount (meta s p) = 1" using lp rs pH by (auto simp: line_ok_def meta_ok_def Let_def)
  have "pinv e L (insert p H) B (unmap_line p r s)"
    using pinv_unmap_last [OF inv p rs pL] ref by (simp add: set_ref_same unmap_line_def Let_def)
  from pinv_free_line [OF this _ B] show ?thesis using pH True by (simp add: zapped_line_def)
next
  case False
  have "length (rmap (meta s p)) \<noteq> 0" using r by auto
  with False have "1 < length (rmap (meta s p))" by linarith
  from pinv_unmap_more [OF inv p r this] show ?thesis using False by (simp add: zapped_line_def)
qed

end
