(* ===== verification/Pcache_Evict.thy ===== *)
theory Pcache_Evict
  imports Pcache_Rmap
begin

section \<open>Eviction and allocation\<close>

text \<open>
  The flush of a line to its memory component (\<open>clflush.c\<close>), the LRU algorithm and its sweep
  thread (\<open>evict_lru.c\<close>), the per-set eviction list (\<open>perset.c\<close>), the eviction of one line
  (\<open>evict.c\<close>) and \<open>pcache_alloc\<close> (\<open>alloc.c\<close>).
\<close>

subsection \<open>Flushing\<close>

text \<open>
  The synchronous network call: the message joins the history and the memory component answers.
\<close>

definition ibapi_send_reply :: "penv \<Rightarrow> p2m_msg \<Rightarrow> pstate \<Rightarrow> (int \<times> line_data) \<times> pstate" where
  "ibapi_send_reply e msg s = (let s = s\<lparr>net := net s @ [msg]\<rparr> in (reply e (net s), s))"

definition clflush_to :: "penv \<Rightarrow> nat \<Rightarrow> u64 \<Rightarrow> nat \<Rightarrow> line_data \<Rightarrow> pstate \<Rightarrow> pstate" where
  "clflush_to e tg user_va m_nid cache s =
     snd (ibapi_send_reply e
       (P2M_FLUSH m_nid \<lparr>fl_pid = tg, fl_user_va = user_va AND PCACHE_LINE_MASK (pconfig (geom e)),
                         fl_pcacheline = cache\<rparr>) s)"

definition clflush_one :: "penv \<Rightarrow> nat \<Rightarrow> u64 \<Rightarrow> line_data \<Rightarrow> pstate \<Rightarrow> pstate" where
  "clflush_one e tsk user_va cache s =
     clflush_to e (tgid (task e tsk)) user_va (get_memory_node e tsk user_va) cache s"

definition pcache_flush_one_rmap :: "penv \<Rightarrow> nat \<Rightarrow> int rmap_one" where
  "pcache_flush_one_rmap e p r nr_flushed s = do {
     _ \<leftarrow> pcache_meta_to_kva (geom e) p;
     Some (PCACHE_RMAP_AGAIN, nr_flushed + 1,
           clflush_one e (owner_process r) (rm_address r) (line s p) s) }"

definition pcache_flush_one :: "penv \<Rightarrow> nat \<Rightarrow> pstate \<Rightarrow> pstate option" where
  "pcache_flush_one e p s = do {
     bug_on (\<not> PcacheBit PC_locked p s);
     bug_on (PcacheBit PC_writeback p s);
     bug_on (\<not> PcacheBit PC_reclaim p s);
     (_, _, s) \<leftarrow> rmap_walk p (pcache_flush_one_rmap e p) no_done 0 (SetPcache PC_writeback p s);
     Some (ClearPcache PC_writeback p s) }"

subsection \<open>The LRU algorithm\<close>

text \<open>The comparison converts the signed counter to \<open>unsigned long\<close>.\<close>

definition pset_has_free_lines :: "penv \<Rightarrow> nat \<Rightarrow> pstate \<Rightarrow> bool" where
  "pset_has_free_lines e k s \<longleftrightarrow>
     (of_int (pset_nr_lru k s) :: u64) < PCACHE_ASSOCIATIVITY (pconfig (geom e))"

definition lru_put_pcache :: "penv \<Rightarrow> nat \<Rightarrow> nat \<Rightarrow> pstate \<Rightarrow> (bool \<times> pstate) option" where
  "lru_put_pcache e p k s = do {
     (z, s) \<leftarrow> put_pcache_testzero p s;
     if z then do { s \<leftarrow> put_pcache_nolru e p (del_from_lru_list p k s); Some (True, s) }
     else Some (False, s) }"

definition lru_get_pcache :: "nat \<Rightarrow> pstate \<Rightarrow> bool \<times> pstate" where
  "lru_get_pcache p s = (case get_pcache_unless_zero p s of (ok, s) \<Rightarrow> (\<not> ok, s))"

text \<open>
  The reverse walk over the LRU list; the result \<open>None\<close> is \<open>ERR_PTR(-EAGAIN)\<close>.
\<close>

fun evict_find_line_from :: "penv \<Rightarrow> nat \<Rightarrow> nat list \<Rightarrow> pstate \<Rightarrow> (nat option \<times> pstate) option" where
  "evict_find_line_from e k [] s = Some (None, s)"
| "evict_find_line_from e k (p # ps) s = do {
     bug_on (PcacheBit PC_reclaim p s);
     (case lru_get_pcache p s of
        (True, s) \<Rightarrow> Some (None, s)
      | (False, s) \<Rightarrow>
          if \<not> PcacheBit PC_valid p s
          then do { (_, s) \<leftarrow> lru_put_pcache e p k s; evict_find_line_from e k ps s }
          else (case trylock_pcache p s of
            (False, s) \<Rightarrow> do { (_, s) \<leftarrow> lru_put_pcache e p k s; evict_find_line_from e k ps s }
          | (True, s) \<Rightarrow>
              if PcacheBit PC_writeback p s \<or> 2 < pcache_ref_count p s
              then do {
                s \<leftarrow> unlock_pcache p s;
                (_, s) \<leftarrow> lru_put_pcache e p k s;
                evict_find_line_from e k ps s }
              else Some (Some p, SetPcache PC_reclaim p (del_from_lru_list p k s)))) }"

definition evict_find_line_lru :: "penv \<Rightarrow> nat \<Rightarrow> pstate \<Rightarrow> (nat option \<times> pstate) option" where
  "evict_find_line_lru e k s = evict_find_line_from e k (rev (lru_list (pset s k))) s"

subsection \<open>The sweep thread\<close>

definition get_sweep_count :: "penv \<Rightarrow> nat \<Rightarrow> pstate \<Rightarrow> int \<times> int" where
  "get_sweep_count e k s =
     (let assoc = int (unat (PCACHE_ASSOCIATIVITY (pconfig (geom e)))) in
      if pset_nr_lru k s < assoc - 1 then (0, 1) else (assoc div 4, 1))"

definition lru_move_tail :: "nat \<Rightarrow> nat \<Rightarrow> pstate \<Rightarrow> pstate" where
  "lru_move_tail p k s = upd_pset k (\<lambda>ps. ps\<lparr>lru_list := remove1 p (lru_list ps) @ [p]\<rparr>) s"

text \<open>
  The work on one line up to the label \<open>put_pcache\<close>: whether it lowered \<open>nr_goal\<close>.
\<close>

definition sweep_one :: "penv \<Rightarrow> nat \<Rightarrow> nat \<Rightarrow> pstate \<Rightarrow> (bool \<times> pstate) option" where
  "sweep_one e k p s =
     (if \<not> PcacheBit PC_valid p s then Some (False, s)
      else (case trylock_pcache p s of
        (False, s) \<Rightarrow> Some (False, s)
      | (True, s) \<Rightarrow>
          if \<not> pcache_mapped p s
          then do { s \<leftarrow> unlock_pcache p s; Some (False, s) }
          else do {
            (referenced, contention, s) \<leftarrow> pcache_referenced_trylock e p s;
            let moved = (\<not> contention \<and> referenced = 0);
            let s = (if moved then lru_move_tail p k s else s);
            s \<leftarrow> unlock_pcache p s;
            Some (moved, s) }))"

fun sweep_from :: "penv \<Rightarrow> nat \<Rightarrow> nat list \<Rightarrow> int \<Rightarrow> int \<Rightarrow> pstate \<Rightarrow> pstate option" where
  "sweep_from e k [] nr_to_sweep nr_goal s = Some s"
| "sweep_from e k (p # ps) nr_to_sweep nr_goal s = do {
     bug_on (PcacheBit PC_reclaim p s);
     (case lru_get_pcache p s of
        (True, s) \<Rightarrow> Some s
      | (False, s) \<Rightarrow> do {
          (moved, s) \<leftarrow> sweep_one e k p s;
          let nr_goal = (if moved then nr_goal - 1 else nr_goal);
          (freed, s) \<leftarrow> lru_put_pcache e p k s;
          if freed \<or> nr_goal = 0 \<or> nr_to_sweep - 1 \<le> 0 \<or> PsetFlag PCACHE_SET_evicting k s
          then Some s
          else sweep_from e k ps (nr_to_sweep - 1) nr_goal s }) }"

definition sweep_pset :: "penv \<Rightarrow> nat \<Rightarrow> pstate \<Rightarrow> pstate option" where
  "sweep_pset e k s =
     (case get_sweep_count e k s of
        (nr_to_sweep, nr_goal) \<Rightarrow>
          if nr_to_sweep = 0 \<or> nr_goal = 0 then Some s
          else if lru_lock_busy e k then Some s
          else sweep_from e k (lru_list (pset s k)) nr_to_sweep nr_goal s)"

text \<open>One round of the daemon's endless loop over all sets.\<close>

fun kevict_sweepd_sets :: "penv \<Rightarrow> nat list \<Rightarrow> pstate \<Rightarrow> pstate option" where
  "kevict_sweepd_sets e [] s = Some s"
| "kevict_sweepd_sets e (k # ks) s =
     (if PsetFlag PCACHE_SET_evicting k s \<or> pset_has_free_lines e k s
      then kevict_sweepd_sets e ks s
      else do {
        s \<leftarrow> sweep_pset e k (SetPset PCACHE_SET_sweeping k s);
        kevict_sweepd_sets e ks (ClearPset PCACHE_SET_sweeping k s) })"

definition kevict_sweepd_lru_round :: "penv \<Rightarrow> pstate \<Rightarrow> pstate option" where
  "kevict_sweepd_lru_round e s = kevict_sweepd_sets e [0..<unat (nr_cachesets (geom e))] s"

subsection \<open>The per-set eviction list\<close>

definition alloc_pset_eviction_entry ::
  "penv \<Rightarrow> nat \<Rightarrow> pstate \<Rightarrow> (nat option option \<times> pstate) option" where
  "alloc_pset_eviction_entry e p s = do {
     i \<leftarrow> pcache_meta_index (geom e) p;
     if pee_used s i
     then (case kzalloc e s of
             (True, s) \<Rightarrow> Some (Some None, s)
           | (False, s) \<Rightarrow> Some (None, s))
     else Some (Some (Some i), s\<lparr>pee_used := (pee_used s)(i := True)\<rparr>) }"

definition free_pset_eviction_entry :: "pset_eviction_entry \<Rightarrow> pstate \<Rightarrow> pstate option" where
  "free_pset_eviction_entry pee s =
     (case pe_slot pee of
        None \<Rightarrow> Some s
      | Some i \<Rightarrow> do {
          bug_on (\<not> pee_used s i);
          Some (s\<lparr>pee_used := (pee_used s)(i := False)\<rparr>) })"

definition pset_add_eviction_entry :: "pset_eviction_entry \<Rightarrow> nat \<Rightarrow> pstate \<Rightarrow> pstate" where
  "pset_add_eviction_entry new k s =
     upd_pset k (\<lambda>ps. ps\<lparr>nr_eviction_entries := nr_eviction_entries ps + 1,
                          eviction_list := new # eviction_list ps\<rparr>) s"

definition pset_del_eviction_entry :: "pset_eviction_entry \<Rightarrow> nat \<Rightarrow> pstate \<Rightarrow> pstate" where
  "pset_del_eviction_entry x k s =
     upd_pset k (\<lambda>ps. ps\<lparr>eviction_list := remove1 x (eviction_list ps),
                          nr_eviction_entries := nr_eviction_entries ps - 1\<rparr>) s"

fun pset_find_eviction_in :: "penv \<Rightarrow> u64 \<Rightarrow> nat \<Rightarrow> pset_eviction_entry list \<Rightarrow> bool" where
  "pset_find_eviction_in e uvaddr tsk [] = False"
| "pset_find_eviction_in e uvaddr tsk (x # xs) =
     (if uvaddr = pe_address x \<and> same_thread_group e tsk (pe_owner x) then True
      else pset_find_eviction_in e uvaddr tsk xs)"

definition pset_find_eviction_locked :: "penv \<Rightarrow> nat \<Rightarrow> u64 \<Rightarrow> nat \<Rightarrow> pstate \<Rightarrow> bool" where
  "pset_find_eviction_locked e k uvaddr tsk s =
     pset_find_eviction_in e (uvaddr AND PAGE_MASK) tsk (eviction_list (pset s k))"

definition pset_find_eviction :: "penv \<Rightarrow> u64 \<Rightarrow> nat \<Rightarrow> pstate \<Rightarrow> bool" where
  "pset_find_eviction e uvaddr tsk s =
     (let k = user_vaddr_to_pcache_set (geom e) uvaddr in
      if nr_eviction_entries (pset s k) = 0 then False
      else pset_find_eviction_locked e k uvaddr tsk s)"

definition pset_add_eviction_one :: "penv \<Rightarrow> nat \<Rightarrow> int rmap_one" where
  "pset_add_eviction_one e p r nr_added s = do {
     k \<leftarrow> pcache_meta_to_pcache_set (geom e) p;
     (a, s) \<leftarrow> alloc_pset_eviction_entry e p s;
     (case a of
        None \<Rightarrow> Some (PCACHE_RMAP_FAILED, nr_added, s)
      | Some slot \<Rightarrow>
          let tsk = owner_process r; address = rm_address r;
              new = \<lparr>pe_slot = slot, pe_address = address, pe_owner = tsk, pe_pcm = p\<rparr>;
              s = pset_add_eviction_entry new k s;
              nr_added = nr_added + 1;
              s = (if nr_added = 1
                   then upd_meta p (\<lambda>m. m\<lparr>pb := \<lparr>pb_tgid = tgid (task e tsk), pb_user_addr = address,
                          pb_memory_nid = get_memory_node e tsk address,
                          pb_replication_nid = get_replica_node_by_addr e tsk address\<rparr>\<rparr>) s
                   else s)
          in Some (PCACHE_RMAP_AGAIN, nr_added, s)) }"

definition pset_add_eviction :: "penv \<Rightarrow> nat \<Rightarrow> pstate \<Rightarrow> (int \<times> pstate) option" where
  "pset_add_eviction e p s = do {
     bug_on (\<not> pcache_mapped p s);
     (_, nr_added, s) \<leftarrow> rmap_walk p (pset_add_eviction_one e p) no_done 0 s;
     Some (nr_added, s) }"

text \<open>
  The removal loop is the plain \<open>list_for_each_entry\<close>: after the body it reads
  \<open>pos->next\<close>. For an entry of the pre-allocated array that is still its old successor; for an
  entry from \<open>kzalloc\<close> it is a read of freed memory, which the model makes fatal.
\<close>

fun pset_remove_eviction_from ::
  "nat \<Rightarrow> nat \<Rightarrow> pset_eviction_entry list \<Rightarrow> int \<Rightarrow> pstate \<Rightarrow> (int \<times> pstate) option" where
  "pset_remove_eviction_from k p [] nr_added s = Some (nr_added, s)"
| "pset_remove_eviction_from k p (x # xs) nr_added s =
     (if pe_pcm x = p
      then do {
        s \<leftarrow> free_pset_eviction_entry x (pset_del_eviction_entry x k s);
        bug_on (pe_slot x = None);
        pset_remove_eviction_from k p xs (nr_added - 1) s }
      else pset_remove_eviction_from k p xs nr_added s)"

definition pset_remove_eviction :: "nat \<Rightarrow> nat \<Rightarrow> int \<Rightarrow> pstate \<Rightarrow> pstate option" where
  "pset_remove_eviction k p nr_added s = do {
     (n, s) \<leftarrow> pset_remove_eviction_from k p (eviction_list (pset s k)) nr_added s;
     bug_on (n \<noteq> 0);
     Some s }"

definition evict_line_perset_list ::
  "penv \<Rightarrow> nat \<Rightarrow> nat \<Rightarrow> piggyback_options \<Rightarrow> pstate \<Rightarrow> (int \<times> pstate) option" where
  "evict_line_perset_list e k p piggyback s = do {
     (nr_added, s) \<leftarrow> pset_add_eviction e p s;
     bug_on (nr_added = 0);
     (dirty, s) \<leftarrow> pcache_try_to_unmap_reserve_check_dirty e p s;
     if dirty \<and> nr_added = 1 \<and> piggyback = ENABLE_PIGGYBACK
     then do {
       s \<leftarrow> set_per_cpu_piggybacker p s;
       (_, s) \<leftarrow> pcache_free_reserved_rmap p s;
       Some (0, s) }
     else do {
       s \<leftarrow> (if dirty then pcache_flush_one e p s else Some s);
       (_, s) \<leftarrow> pcache_free_reserved_rmap p s;
       s \<leftarrow> pset_remove_eviction k p nr_added s;
       Some (0, s) } }"

subsection \<open>Evicting one line\<close>

definition pcache_evict_line ::
  "penv \<Rightarrow> nat \<Rightarrow> u64 \<Rightarrow> piggyback_options \<Rightarrow> pstate \<Rightarrow> (evict_status \<times> pstate) option" where
  "pcache_evict_line e k address piggyback s = do {
     (found, s) \<leftarrow> evict_find_line_lru e k (SetPset PCACHE_SET_evicting k s);
     let s = ClearPset PCACHE_SET_evicting k s;
     (case found of
        None \<Rightarrow> Some (PCACHE_EVICT_EAGAIN_FREEABLE, s)
      | Some p \<Rightarrow> do {
          bug_on (\<not> PcacheBit PC_locked p s);
          bug_on (\<not> PcacheBit PC_reclaim p s);
          let nr_mapped = pcache_mapcount p s;
          bug_on (nr_mapped < 1);
          (ret, s) \<leftarrow> evict_line_perset_list e k p piggyback s;
          if ret \<noteq> 0 then do {
            let s = add_to_lru_list p k (ClearPcache PC_reclaim p s);
            s \<leftarrow> unlock_pcache p s;
            s \<leftarrow> put_pcache e p s;
            Some (PCACHE_EVICT_FAILURE_EVICT, s) }
          else do {
            bug_on (pcache_mapped p s \<or> PcacheBit PC_valid p s);
            bug_on (pcache_ref_count p s < nr_mapped + 1);
            (case pcache_ref_freeze p (nr_mapped + 1) s of
               (False, s) \<Rightarrow>
                 (case pcache_ref_sub_and_test p (nr_mapped + 1) s of
                    (z, s) \<Rightarrow> do {
                      bug_on z;
                      let s = add_to_lru_list p k (ClearPcache PC_reclaim p s);
                      s \<leftarrow> unlock_pcache p s;
                      Some (PCACHE_EVICT_EAGAIN_CONCURRENT, s) })
             | (True, s) \<Rightarrow> do {
                 s \<leftarrow> put_pcache_nolru e p (ClearPcache PC_locked p (ClearPcache PC_reclaim p s));
                 Some (PCACHE_EVICT_SUCCEED, s) }) } }) }"

subsection \<open>Allocation\<close>

text \<open>
  The retry loop runs until the timeout of \<open>sysctl_pcache_alloc_timeout_sec\<close>;
  \<open>alloc_rounds\<close> is the number of evictions that fit before it. Between two rounds of the
  loop nothing else happens in the model.
\<close>

fun pcache_alloc_loop ::
  "nat \<Rightarrow> penv \<Rightarrow> nat \<Rightarrow> u64 \<Rightarrow> piggyback_options \<Rightarrow> pstate \<Rightarrow> (nat option \<times> pstate) option" where
  "pcache_alloc_loop n e k address piggyback s =
     (case pcache_alloc_fastpath k s of
        (Some p, s) \<Rightarrow> do {
          bug_on (piggyback = DISABLE_PIGGYBACK \<and> PcacheBit PC_piggyback p s);
          Some (Some p, s) }
      | (None, s) \<Rightarrow> do {
          (ret, s) \<leftarrow> pcache_evict_line e k address piggyback s;
          if ret = PCACHE_EVICT_FAILURE_FIND \<or> ret = PCACHE_EVICT_FAILURE_EVICT then Some (None, s)
          else (case n of 0 \<Rightarrow> Some (None, s)
                | Suc n \<Rightarrow> pcache_alloc_loop n e k address piggyback s) })"

definition pcache_alloc :: "penv \<Rightarrow> u64 \<Rightarrow> piggyback_options \<Rightarrow> pstate \<Rightarrow> (nat option \<times> pstate) option" where
  "pcache_alloc e address piggyback s =
     pcache_alloc_loop (alloc_rounds e) e (user_vaddr_to_pcache_set (geom e) address) address piggyback s"

subsection \<open>Looking up an eviction in flight\<close>

interpretation evictions: counted_list "\<lambda>s. eviction_list (pset s k)" "\<lambda>s. nr_eviction_entries (pset s k)"
    "\<lambda>x. pset_add_eviction_entry x k" "\<lambda>x. pset_del_eviction_entry x k" for k
  by unfold_locales (simp_all add: pset_add_eviction_entry_def pset_del_eviction_entry_def upd_pset_def)

text \<open>A sequence of additions to and removals from the list of a set.\<close>

fun eviction_ops :: "nat \<Rightarrow> pset_eviction_entry list_op list \<Rightarrow> pstate \<Rightarrow> pstate" where
  "eviction_ops k [] s = s"
| "eviction_ops k (Ins x # ops) s = eviction_ops k ops (pset_add_eviction_entry x k s)"
| "eviction_ops k (Del x # ops) s = eviction_ops k ops (pset_del_eviction_entry x k s)"

lemma eviction_ops_run: "eviction_ops k ops s = evictions.run k ops s"
  by (induction k ops s rule: eviction_ops.induct) simp_all

lemma pset_find_eviction_in_iff:
  "pset_find_eviction_in e a tsk xs \<longleftrightarrow> (\<exists>x \<in> set xs. pe_address x = a \<and> same_thread_group e tsk (pe_owner x))"
  by (induction xs) auto

text \<open>Reading the counter first changes nothing, as the counter counts the list.\<close>

lemma pset_find_eviction_iff:
  assumes "k = user_vaddr_to_pcache_set (geom e) a" "evictions.agree k s"
  shows "pset_find_eviction e a tsk s \<longleftrightarrow>
    (\<exists>x \<in> set (eviction_list (pset s k)). pe_address x = a AND PAGE_MASK \<and> same_thread_group e tsk (pe_owner x))"
  using evictions.counter_zero_iff [OF assms(2)] assms(1)
  by (auto simp: pset_find_eviction_def pset_find_eviction_locked_def pset_find_eviction_in_iff Let_def)

subsection \<open>The line the LRU algorithm picks\<close>

declare clflush_to_def [pc_defs] clflush_one_def [pc_defs] ibapi_send_reply_def [pc_defs]
  alloc_pset_eviction_entry_def [pc_defs] free_pset_eviction_entry_def [pc_defs]
  pset_add_eviction_entry_def [pc_defs] pset_del_eviction_entry_def [pc_defs]

definition evictable :: "pstate \<Rightarrow> nat \<Rightarrow> bool" where
  "evictable s p \<longleftrightarrow> PC_valid \<in> bits (meta s p) \<and> PC_locked \<notin> bits (meta s p) \<and>
     PC_writeback \<notin> bits (meta s p) \<and> refcount (meta s p) = 1"

definition picked_line :: "nat \<Rightarrow> nat \<Rightarrow> pstate \<Rightarrow> pstate" where
  "picked_line p k s =
     s\<lparr>meta := (meta s)(p := (meta s p)\<lparr>refcount := 2, bits := insert PC_reclaim (insert PC_locked (bits (meta s p)))\<rparr>),
       pset := (pset s)(k := (pset s k)\<lparr>lru_list := remove1 p (lru_list (pset s k)), nr_lru := nr_lru (pset s k) - 1\<rparr>)\<rparr>"

lemma meta_restore: "s\<lparr>meta := (meta s)(p := meta s p)\<rparr> = s"
  by simp

text \<open>A line that is not picked is left exactly as it was.\<close>

lemma evict_find_skip:
  assumes "\<not> evictable s p" "PC_reclaim \<notin> bits (meta s p)" "0 < refcount (meta s p)"
  shows "evict_find_line_from e k (p # ps) s = evict_find_line_from e k ps s"
proof -
  have r: "refcount (meta s p) + 1 \<noteq> 1" "refcount (meta s p) \<noteq> 0" "refcount (meta s p) + 1 \<noteq> 0" using assms(3) by auto
  have m: "(meta s p)\<lparr>refcount := refcount (meta s p)\<rparr> = meta s p" "(meta s p)\<lparr>bits := bits (meta s p)\<rparr> = meta s p"
    "(meta s p)\<lparr>bits := bits (meta s p), refcount := refcount (meta s p)\<rparr> = meta s p"
    "(meta s p)\<lparr>refcount := refcount (meta s p), bits := bits (meta s p)\<rparr> = meta s p" by simp_all
  consider (invalid) "PC_valid \<notin> bits (meta s p)" | (locked) "PC_valid \<in> bits (meta s p)" "PC_locked \<in> bits (meta s p)"
    | (busy) "PC_valid \<in> bits (meta s p)" "PC_locked \<notin> bits (meta s p)"
        "PC_writeback \<in> bits (meta s p) \<or> 2 < refcount (meta s p) + 1"
  proof -
    have "refcount (meta s p) \<noteq> 1 \<Longrightarrow> 2 < refcount (meta s p) + 1" using assms(3) by linarith
    then show ?thesis using that assms(1) unfolding evictable_def by blast
  qed
  then show ?thesis
  proof cases
    case invalid
    then show ?thesis using assms(2) r by (simp add: lru_get_pcache_def lru_put_pcache_def pc_defs m)
  next
    case locked
    then show ?thesis using assms(2) r by (simp add: lru_get_pcache_def lru_put_pcache_def pc_defs m insert_absorb)
  next
    case busy
    have "insert PC_locked (bits (meta s p)) - {PC_locked} = bits (meta s p)" using busy by auto
    then show ?thesis using busy assms(2) r by (simp add: lru_get_pcache_def lru_put_pcache_def pc_defs m)
  qed
qed

lemma evict_find_line_from_eq:
  assumes "\<forall>p \<in> set ps. PC_reclaim \<notin> bits (meta s p) \<and> 0 < refcount (meta s p)"
  shows "evict_find_line_from e k ps s =
     Some (case find (evictable s) ps of None \<Rightarrow> (None, s) | Some p \<Rightarrow> (Some p, picked_line p k s))"
  using assms
proof (induction ps)
  case (Cons p ps)
  show ?case
  proof (cases "evictable s p")
    case True
    then show ?thesis
      using Cons.prems by (simp add: evictable_def lru_get_pcache_def pc_defs picked_line_def insert_commute)
  next
    case False
    then show ?thesis using Cons evict_find_skip [OF False, of e k ps] by simp
  qed
qed simp

subsection \<open>Evicting a line with one mapping\<close>

definition evict_entry :: "nat \<Rightarrow> pcache_rmap \<Rightarrow> pset_eviction_entry" where
  "evict_entry p r = \<lparr>pe_slot = Some p, pe_address = rm_address r, pe_owner = owner_process r, pe_pcm = p\<rparr>"

definition evict_pb :: "penv \<Rightarrow> pcache_rmap \<Rightarrow> piggyback_info" where
  "evict_pb e r = \<lparr>pb_tgid = tgid (task e (owner_process r)), pb_user_addr = rm_address r,
     pb_memory_nid = get_memory_node e (owner_process r) (rm_address r),
     pb_replication_nid = get_replica_node_by_addr e (owner_process r) (rm_address r)\<rparr>"

lemma pset_add_eviction_single:
  assumes "rmap (meta s p) = [r]" "PC_locked \<in> bits (meta s p)" "0 < mapcount (meta s p)" "p < nl e" "\<not> pee_used s p"
  shows "pset_add_eviction e p s =
     Some (1, s\<lparr>meta := (meta s)(p := (meta s p)\<lparr>pb := evict_pb e r\<rparr>),
       pset := (pset s)(set_of e p := (pset s (set_of e p))
         \<lparr>nr_eviction_entries := nr_eviction_entries (pset s (set_of e p)) + 1,
          eviction_list := evict_entry p r # eviction_list (pset s (set_of e p))\<rparr>),
       pee_used := (pee_used s)(p := True)\<rparr>)"
  using assms
  by (simp add: pset_add_eviction_def rmap_walk_def pset_add_eviction_one_def pc_defs meta_index meta_to_set
      evict_entry_def evict_pb_def Let_def)

lemma unmap_reserve_single:
  assumes "rmap (meta s p) = [r]" "PC_locked \<in> bits (meta s p)" "\<not> rm_reserved r" "0 < mapcount (meta s p)"
    "pte_ptr e (owner_mm r) (rm_address r) = page_table r"
    "pcache_meta_to_pfn (geom e) p = Some (pte_pfn (ptes s (page_table r)))"
    "pte_present (ptes s (page_table r))"
    "pte_lockptr e (owner_mm r) (rm_address r) \<notin> ptl_held s"
  shows "pcache_try_to_unmap_reserve_check_dirty e p s =
     Some (pte_dirty (ptes s (page_table r)),
       s\<lparr>meta := (meta s)(p := (meta s p)\<lparr>rmap := [r\<lparr>rm_reserved := True\<rparr>]\<rparr>),
         ptes := (ptes s)(page_table r := 0),
         tlb_flushes := tlb_flushes s @ [(owner_mm r, rm_address r, rm_address r + PAGE_SIZE - 1)]\<rparr>)"
proof -
  let ?l = "pte_lockptr e (owner_mm r) (rm_address r)"
  have "insert ?l (ptl_held s) - {?l} = ptl_held s" using assms(8) by auto
  then show ?thesis
    using assms
    by (simp add: pcache_try_to_unmap_reserve_check_dirty_def rmap_walk_def pcache_try_to_unmap_reserve_one_def
        rmap_get_pte_locked_def unmap_pte_def pcache_mapcount_is_zero_def pc_defs del: PAGE_SIZE_eq)
qed

lemma pcache_flush_one_single:
  assumes "rmap (meta s p) = [r]" "PC_locked \<in> bits (meta s p)" "PC_reclaim \<in> bits (meta s p)"
    "PC_writeback \<notin> bits (meta s p)" "p < nl e"
  shows "pcache_flush_one e p s =
     Some (s\<lparr>net := net s @ [P2M_FLUSH (get_memory_node e (owner_process r) (rm_address r))
        \<lparr>fl_pid = tgid (task e (owner_process r)),
         fl_user_va = rm_address r AND PCACHE_LINE_MASK (pconfig (geom e)), fl_pcacheline = line s p\<rparr>]\<rparr>)"
proof -
  have "insert PC_writeback (bits (meta s p)) - {PC_writeback} = bits (meta s p)" using assms by auto
  moreover have "pcache_meta_to_kva (geom e) p \<noteq> None"
    using assms(5) by (simp add: pcache_meta_to_kva_def nl_def nr_lines_def)
  ultimately show ?thesis
    using assms by (auto simp: pcache_flush_one_def rmap_walk_def pcache_flush_one_rmap_def pc_defs)
qed

lemma pcache_free_reserved_single:
  assumes "rmap (meta s p) = [r\<lparr>rm_reserved := True\<rparr>]" "\<not> rm_reserved r" "PC_locked \<in> bits (meta s p)" "mapcount (meta s p) = 1"
    "\<And>i. rm_slot r = Some i \<Longrightarrow> rmap_used s i"
  shows "pcache_free_reserved_rmap p s =
     Some (PCACHE_RMAP_SUCCEED,
       s\<lparr>meta := (meta s)(p := (meta s p)\<lparr>rmap := [], mapcount := 0, bits := bits (meta s p) - {PC_valid}\<rparr>),
         rmap_used := (case rm_slot r of None \<Rightarrow> rmap_used s | Some i \<Rightarrow> (rmap_used s)(i := False))\<rparr>)"
proof -
  have "r\<lparr>rm_reserved := False\<rparr> = r" using assms(2) by simp
  then show ?thesis
    using assms
    by (cases "rm_slot r")
       (simp_all add: pcache_free_reserved_rmap_def rmap_walk_def pcache_free_reserved_rmap_one_def
         pcache_remove_one_rmap_def pc_defs)
qed

lemma pset_remove_eviction_single:
  assumes "eviction_list (pset s k) = [x]" "pe_pcm x = p" "pe_slot x = Some p" "pee_used s p"
  shows "pset_remove_eviction k p 1 s =
     Some (s\<lparr>pset := (pset s)(k := (pset s k)\<lparr>eviction_list := [], nr_eviction_entries := nr_eviction_entries (pset s k) - 1\<rparr>),
            pee_used := (pee_used s)(p := False)\<rparr>)"
  using assms by (simp add: pset_remove_eviction_def pc_defs)

lemma evictable_pset [simp]: "evictable (s\<lparr>pset := x\<rparr>) = evictable s"
  by (simp add: evictable_def fun_eq_iff)

text \<open>What the picked line looks like under the invariant.\<close>

lemma picked_facts:
  assumes inv: "pinv e L H None s" and k: "k < nsets e"
    and f: "find (evictable s) (rev (lru_list (pset s k))) = Some p"
  obtains r where "rmap (meta s p) = [r]" "rmap_ok e s p r" "p < nl e" "set_of e p = k" "p \<notin> H" "p \<notin> L"
    "bits (meta s p) = {PC_valid}" "mapcount (meta s p) = 1" "refcount (meta s p) = 1" "\<not> pee_used s p"
    "\<And>i. rm_slot r = Some i \<Longrightarrow> rmap_used s i" "p \<in> set (lru_list (pset s k))"
    "pcache_meta_to_pfn (geom e) p = Some (pte_pfn (ptes s (page_table r)))"
    "eviction_list (pset s k) = []" "nr_eviction_entries (pset s k) = 0"
proof -
  note D = pinvD [OF inv]
  have ev: "evictable s p" and pin: "p \<in> set (lru_list (pset s k))"
    using f unfolding find_Some_iff by (metis, metis nth_mem set_rev)
  then have p: "p < nl e" "set_of e p = k" and lru: "in_lru e s p" using list_member_set(2) [OF D(2) k] by auto
  have lp: "line_ok e L H None s p" by (rule line_okD [OF D(3) p(1)])
  have pL: "p \<notin> L" using ev lp by (auto simp: evictable_def line_ok_def)
  have mo: "meta_ok e s p" using lp by (simp add: line_ok_def)
  have pH: "p \<notin> H" using ev lp by (auto simp: evictable_def line_ok_def meta_ok_def Let_def)
  have mc: "mapcount (meta s p) = 1" "refcount (meta s p) = 1" using ev lp pH by (auto simp: evictable_def line_ok_def)
  then obtain r where r: "rmap (meta s p) = [r]" using mo by (auto simp: meta_ok_def Let_def length_Suc_conv)
  have ro: "rmap_ok e s p r" using mo r by (simp add: meta_ok_def Let_def)
  have b: "bits (meta s p) = {PC_valid}" using lp ev by (auto simp: line_ok_def evictable_def)
  have pfn: "pcache_meta_to_pfn (geom e) p = Some (pte_pfn (ptes s (page_table r)))"
    using frame_in_line(2) [OF D(1)] ro unfolding rmap_ok_def maps_line_def by blast
  have ev2: "\<not> pee_used s p" "eviction_list (pset s k) = []" "nr_eviction_entries (pset s k) = 0"
    using D(4) p(1) k by (simp_all add: evicts_ok_def evict_list_of_def)
  have us: "rmap_used s i" if "rm_slot r = Some i" for i
    using rmap_slot_used [OF mo] r that by simp
  show ?thesis by (rule that [OF r ro p pH pL b mc ev2(1) us pin pfn ev2(2,3)])
qed

text \<open>The end of an eviction: the two references are dropped at once and the line is released.\<close>

lemma pcache_evict_line_finish:
  assumes "evict_find_line_lru e k (SetPset PCACHE_SET_evicting k s) = Some (Some p, s0)"
    and "ClearPset PCACHE_SET_evicting k s0 = s1"
    and "{PC_locked, PC_reclaim} \<subseteq> bits (meta s1 p)" "mapcount (meta s1 p) = 1"
    and "evict_line_perset_list e k p pbo s1 = Some (0, t)"
    and "mapcount (meta t p) = 0" "PC_valid \<notin> bits (meta t p)" "refcount (meta t p) = 2"
  shows "pcache_evict_line e k address pbo s =
    (case put_pcache_nolru e p (t\<lparr>meta := (meta t)(p := (meta t p)
        \<lparr>refcount := 0, bits := bits (meta t p) - {PC_reclaim} - {PC_locked}\<rparr>)\<rparr>) of
       None \<Rightarrow> None | Some u \<Rightarrow> Some (PCACHE_EVICT_SUCCEED, u))"
  using assms
  by (simp add: pcache_evict_line_def PcacheBit_def pcache_mapcount_def pcache_mapped_def pcache_ref_count_def
      pcache_ref_freeze_def ClearPcache_def upd_meta_def pcache_ref_count_set_def bind_eq_Some_conv split: option.splits)

definition evict_dirty :: "pcache_rmap \<Rightarrow> pstate \<Rightarrow> bool" where
  "evict_dirty r s = pte_dirty (ptes s (page_table r))"

definition evict_flush :: "penv \<Rightarrow> nat \<Rightarrow> pcache_rmap \<Rightarrow> pstate \<Rightarrow> p2m_msg" where
  "evict_flush e p r s = P2M_FLUSH (get_memory_node e (owner_process r) (rm_address r))
     \<lparr>fl_pid = tgid (task e (owner_process r)),
      fl_user_va = rm_address r AND PCACHE_LINE_MASK (pconfig (geom e)), fl_pcacheline = line s p\<rparr>"


text \<open>
  The states an eviction goes through differ from the first one in the line, its set, the pools
  and the page table entry only.
\<close>

definition evict_mid :: "pstate \<Rightarrow> nat \<Rightarrow> nat \<Rightarrow> pcache_meta \<Rightarrow> pcache_set \<Rightarrow> (nat \<Rightarrow> bool) \<Rightarrow> (nat \<Rightarrow> bool) \<Rightarrow>
    nat option \<Rightarrow> (nat \<Rightarrow> pte) \<Rightarrow> p2m_msg list \<Rightarrow> (nat \<times> u64 \<times> u64) list \<Rightarrow> pstate" where
  "evict_mid s p k M P ru pee pg pt nt fs =
     s\<lparr>meta := (meta s)(p := M), pset := (pset s)(k := P), rmap_used := ru, pee_used := pee, piggybacker := pg,
       ptes := pt, net := nt, tlb_flushes := fs\<rparr>"

lemma evict_mid_sel [simp]:
  "meta (evict_mid s p k M P ru pee pg pt nt fs) = (meta s)(p := M)"
  "pset (evict_mid s p k M P ru pee pg pt nt fs) = (pset s)(k := P)"
  "rmap_used (evict_mid s p k M P ru pee pg pt nt fs) = ru"
  "pee_used (evict_mid s p k M P ru pee pg pt nt fs) = pee"
  "piggybacker (evict_mid s p k M P ru pee pg pt nt fs) = pg"
  "ptes (evict_mid s p k M P ru pee pg pt nt fs) = pt"
  "net (evict_mid s p k M P ru pee pg pt nt fs) = nt"
  "tlb_flushes (evict_mid s p k M P ru pee pg pt nt fs) = fs"
  "line (evict_mid s p k M P ru pee pg pt nt fs) = line s"
  "ptl_held (evict_mid s p k M P ru pee pg pt nt fs) = ptl_held s"
  by (simp_all add: evict_mid_def)

lemma evict_mid_upd [simp]:
  "(evict_mid s p k M P ru pee pg pt nt fs)\<lparr>meta := (meta s)(p := M')\<rparr> = evict_mid s p k M' P ru pee pg pt nt fs"
  "(evict_mid s p k M P ru pee pg pt nt fs)\<lparr>pset := (pset s)(k := P')\<rparr> = evict_mid s p k M P' ru pee pg pt nt fs"
  "(evict_mid s p k M P ru pee pg pt nt fs)\<lparr>rmap_used := ru'\<rparr> = evict_mid s p k M P ru' pee pg pt nt fs"
  "(evict_mid s p k M P ru pee pg pt nt fs)\<lparr>pee_used := pee'\<rparr> = evict_mid s p k M P ru pee' pg pt nt fs"
  "(evict_mid s p k M P ru pee pg pt nt fs)\<lparr>piggybacker := pg'\<rparr> = evict_mid s p k M P ru pee pg' pt nt fs"
  "(evict_mid s p k M P ru pee pg pt nt fs)\<lparr>ptes := pt'\<rparr> = evict_mid s p k M P ru pee pg pt' nt fs"
  "(evict_mid s p k M P ru pee pg pt nt fs)\<lparr>net := nt'\<rparr> = evict_mid s p k M P ru pee pg pt nt' fs"
  "(evict_mid s p k M P ru pee pg pt nt fs)\<lparr>tlb_flushes := fs'\<rparr> = evict_mid s p k M P ru pee pg pt nt fs'"
  by (simp_all add: evict_mid_def)

definition evict_pset :: "nat \<Rightarrow> pset_eviction_entry list \<Rightarrow> pcache_set \<Rightarrow> pcache_set" where
  "evict_pset p xs ps = ps\<lparr>lru_list := remove1 p (lru_list ps), nr_lru := nr_lru ps - 1,
     ps_flags := ps_flags ps - {PCACHE_SET_evicting}, nr_eviction_entries := int (length xs), eviction_list := xs\<rparr>"

lemma evict_pset_simps [simp]:
  "free_head (evict_pset p xs ps) = free_head ps"
  "lru_list (evict_pset p xs ps) = remove1 p (lru_list ps)"
  "nr_lru (evict_pset p xs ps) = nr_lru ps - 1"
  "eviction_list (evict_pset p xs ps) = xs" "nr_eviction_entries (evict_pset p xs ps) = int (length xs)"
  "(evict_pset p xs ps)\<lparr>nr_eviction_entries := int (length ys), eviction_list := ys\<rparr> = evict_pset p ys ps"
  "(evict_pset p xs ps)\<lparr>nr_eviction_entries := 1, eviction_list := [y]\<rparr> = evict_pset p [y] ps"
  "(evict_pset p xs ps)\<lparr>eviction_list := [], nr_eviction_entries := 0\<rparr> = evict_pset p [] ps"
  by (simp_all add: evict_pset_def)

text \<open>
  The state after the eviction of line \<open>p\<close> with its only mapping \<open>r\<close>, without and with
  piggybacking.
\<close>

definition evict_slots :: "pcache_rmap \<Rightarrow> pstate \<Rightarrow> nat \<Rightarrow> bool" where
  "evict_slots r s = (case rm_slot r of None \<Rightarrow> rmap_used s | Some i \<Rightarrow> (rmap_used s)(i := False))"

definition evict_tlb :: "pcache_rmap \<Rightarrow> pstate \<Rightarrow> (nat \<times> u64 \<times> u64) list" where
  "evict_tlb r s = tlb_flushes s @ [(owner_mm r, rm_address r, rm_address r + PAGE_SIZE - 1)]"

definition evicted_line :: "penv \<Rightarrow> nat \<Rightarrow> pcache_rmap \<Rightarrow> pstate \<Rightarrow> pstate" where
  "evicted_line e p r s = (let k = set_of e p in
     evict_mid s p k \<lparr>bits = {}, mapcount = 0, refcount = 0, rmap = [], pb = evict_pb e r\<rparr>
       ((evict_pset p [] (pset s k))\<lparr>free_head := p # free_head (pset s k)\<rparr>) (evict_slots r s) (pee_used s)
       (piggybacker s) ((ptes s)(page_table r := 0))
       (net s @ (if evict_dirty r s then [evict_flush e p r s] else [])) (evict_tlb r s))"

definition evicted_piggy :: "penv \<Rightarrow> nat \<Rightarrow> pcache_rmap \<Rightarrow> pstate \<Rightarrow> pstate" where
  "evicted_piggy e p r s = (let k = set_of e p in
     evict_mid s p k \<lparr>bits = {PC_piggyback_cached}, mapcount = 0, refcount = 0, rmap = [], pb = evict_pb e r\<rparr>
       (evict_pset p [evict_entry p r] (pset s k)) (evict_slots r s) ((pee_used s)(p := True))
       (Some p) ((ptes s)(page_table r := 0)) (net s) (evict_tlb r s))"

lemma lru_quiet:
  assumes inv: "pinv e L H B s" and k: "k < nsets e"
  shows "\<forall>q \<in> set (rev (lru_list (pset s k))). PC_reclaim \<notin> bits (meta s q) \<and> 0 < refcount (meta s q)"
proof
  fix q assume "q \<in> set (rev (lru_list (pset s k)))"
  then have q: "q < nl e" "in_lru e s q" using list_member_set(2) [OF pinvD(2) [OF inv] k] by auto
  then show "PC_reclaim \<notin> bits (meta s q) \<and> 0 < refcount (meta s q)"
    using line_okD [OF pinvD(3) [OF inv] q(1)] by (auto simp: line_ok_def meta_ok_def Let_def)
qed

text \<open>The line as it is picked, with its entry on the eviction list, and with the entry unmapped.\<close>

definition evict_meta :: "pc_bit set \<Rightarrow> pcache_rmap list \<Rightarrow> piggyback_info \<Rightarrow> pcache_meta" where
  "evict_meta b rs b' = \<lparr>bits = b, mapcount = int (length rs), refcount = 2, rmap = rs, pb = b'\<rparr>"

abbreviation (input) picked_bits :: "pc_bit set" where
  "picked_bits \<equiv> {PC_reclaim, PC_locked, PC_valid}"

definition evict1 :: "nat \<Rightarrow> nat \<Rightarrow> pcache_rmap \<Rightarrow> pstate \<Rightarrow> pstate" where
  "evict1 p k r s = evict_mid s p k (evict_meta picked_bits [r] (pb (meta s p))) (evict_pset p [] (pset s k))
     (rmap_used s) (pee_used s) None (ptes s) (net s) (tlb_flushes s)"

definition evict2 :: "penv \<Rightarrow> nat \<Rightarrow> nat \<Rightarrow> pcache_rmap \<Rightarrow> pstate \<Rightarrow> pstate" where
  "evict2 e p k r s = evict_mid s p k (evict_meta picked_bits [r] (evict_pb e r)) (evict_pset p [evict_entry p r] (pset s k))
     (rmap_used s) ((pee_used s)(p := True)) None (ptes s) (net s) (tlb_flushes s)"

definition evict3 :: "penv \<Rightarrow> nat \<Rightarrow> nat \<Rightarrow> pcache_rmap \<Rightarrow> pstate \<Rightarrow> pstate" where
  "evict3 e p k r s = evict_mid s p k (evict_meta picked_bits [r\<lparr>rm_reserved := True\<rparr>] (evict_pb e r))
     (evict_pset p [evict_entry p r] (pset s k)) (rmap_used s) ((pee_used s)(p := True)) None
     ((ptes s)(page_table r := 0)) (net s) (evict_tlb r s)"

lemmas evict_stages = evict1_def evict2_def evict3_def evict_meta_def

lemma evict_prefix:
  assumes inv: "pinv e L H None s" and k: "k < nsets e"
    and f: "find (evictable s) (rev (lru_list (pset s k))) = Some p"
  obtains r s0 where "rmap (meta s p) = [r]" "rmap_ok e s p r" "p < nl e" "set_of e p = k" "\<not> pee_used s p"
    "\<And>i. rm_slot r = Some i \<Longrightarrow> rmap_used s i"
    "pcache_meta_to_pfn (geom e) p = Some (pte_pfn (ptes s (page_table r)))"
    "evict_find_line_lru e k (SetPset PCACHE_SET_evicting k s) = Some (Some p, s0)"
    "ClearPset PCACHE_SET_evicting k s0 = evict1 p k r s" "pset_add_eviction e p (evict1 p k r s) = Some (1, evict2 e p k r s)"
proof -
  note D = pinvD [OF inv]
  obtain r where r: "rmap (meta s p) = [r]" and ro: "rmap_ok e s p r" and p: "p < nl e" "set_of e p = k"
    and b: "bits (meta s p) = {PC_valid}" and mc: "mapcount (meta s p) = 1" "refcount (meta s p) = 1"
    and npee: "\<not> pee_used s p" and us: "\<And>i. rm_slot r = Some i \<Longrightarrow> rmap_used s i"
    and pfn: "pcache_meta_to_pfn (geom e) p = Some (pte_pfn (ptes s (page_table r)))"
    and el: "eviction_list (pset s k) = []" "nr_eviction_entries (pset s k) = 0"
    using picked_facts [OF inv k f] by blast
  let ?s0 = "SetPset PCACHE_SET_evicting k s"
  have m0: "meta ?s0 = meta s" "lru_list (pset ?s0 k) = lru_list (pset s k)" by (simp_all add: pc_defs)
  have ev0: "evictable ?s0 = evictable s" by (simp add: evictable_def fun_eq_iff m0)
  have find: "evict_find_line_lru e k ?s0 = Some (Some p, picked_line p k ?s0)"
    using evict_find_line_from_eq [of "rev (lru_list (pset s k))" ?s0 e k] lru_quiet [OF inv k] f
    by (simp add: evict_find_line_lru_def m0 ev0)
  have ps: "(pset s k)\<lparr>lru_list := remove1 p (lru_list (pset s k)), nr_lru := nr_lru (pset s k) - 1,
     ps_flags := ps_flags (pset s k) - {PCACHE_SET_evicting}\<rparr> = evict_pset p [] (pset s k)"
    by (rule pcache_set.equality) (simp_all add: evict_pset_def el)
  have mp: "(meta s p)\<lparr>refcount := 2, bits := picked_bits\<rparr> = evict_meta picked_bits [r] (pb (meta s p))"
    by (rule pcache_meta.equality) (simp_all add: mc r evict_meta_def)
  have s1: "ClearPset PCACHE_SET_evicting k (picked_line p k ?s0) = evict1 p k r s"
    by (rule pstate.equality) (simp_all add: evict1_def evict_mid_def picked_line_def pc_defs b ps mp D(6))
  have s2: "pset_add_eviction e p (evict1 p k r s) = Some (1, evict2 e p k r s)"
    using pset_add_eviction_single [of "evict1 p k r s" p r e] p npee unfolding p(2) by (simp add: evict_stages)
  show ?thesis by (rule that [OF r ro p npee us pfn find s1 s2])
qed

lemma pcache_evict_line_eq:
  assumes inv: "pinv e L H None s" and k: "k < nsets e"
    and f: "find (evictable s) (rev (lru_list (pset s k))) = Some p"
    and ptl: "\<And>r. r \<in> set (rmap (meta s p)) \<Longrightarrow> pte_lockptr e (owner_mm r) (rm_address r) \<notin> ptl_held s"
  obtains r where "rmap (meta s p) = [r]"
    "pcache_evict_line e k address pbo s =
       Some (PCACHE_EVICT_SUCCEED,
         if evict_dirty r s \<and> pbo = ENABLE_PIGGYBACK then evicted_piggy e p r s else evicted_line e p r s)"
proof -
  obtain r s0 where r: "rmap (meta s p) = [r]" and ro: "rmap_ok e s p r" and p: "p < nl e" "set_of e p = k"
    and npee: "\<not> pee_used s p" and us: "\<And>i. rm_slot r = Some i \<Longrightarrow> rmap_used s i"
    and pfn: "pcache_meta_to_pfn (geom e) p = Some (pte_pfn (ptes s (page_table r)))"
    and find: "evict_find_line_lru e k (SetPset PCACHE_SET_evicting k s) = Some (Some p, s0)"
    and s1: "ClearPset PCACHE_SET_evicting k s0 = evict1 p k r s"
    and s2: "pset_add_eviction e p (evict1 p k r s) = Some (1, evict2 e p k r s)"
    using evict_prefix [OF inv k f] by metis
  let ?s1 = "evict1 p k r s" and ?s3 = "evict3 e p k r s"
  have rr: "\<not> rm_reserved r" "pte_ptr e (owner_mm r) (rm_address r) = page_table r" "pte_present (ptes s (page_table r))"
    using ro by (simp_all add: rmap_ok_def maps_line_def)
  have lk: "pte_lockptr e (owner_mm r) (rm_address r) \<notin> ptl_held s" using ptl r by simp
  have s3: "pcache_try_to_unmap_reserve_check_dirty e p (evict2 e p k r s) = Some (evict_dirty r s, ?s3)"
    using unmap_reserve_single [of "evict2 e p k r s" p r e] rr pfn lk by (simp add: evict_stages evict_dirty_def evict_tlb_def)
  note put_defs = put_pcache_nolru_def pcache_free_check_def pcache_expected_state_def PCACHE_FLAGS_CHECK_AT_FREE_def
     PcacheBit_def pcache_ref_count_def
  have fin: "pcache_evict_line e k address pbo s = Some (PCACHE_EVICT_SUCCEED, u)"
    if "evict_line_perset_list e k p pbo ?s1 = Some (0, t)" "mapcount (meta t p) = 0" "PC_valid \<notin> bits (meta t p)"
      "refcount (meta t p) = 2" "put_pcache_nolru e p (t\<lparr>meta := (meta t)(p := (meta t p)
        \<lparr>refcount := 0, bits := bits (meta t p) - {PC_reclaim} - {PC_locked}\<rparr>)\<rparr>) = Some u" for t u
    using pcache_evict_line_finish [OF find s1 _ _ that(1-4)] that(5) by (simp add: evict_stages)
  have bs: "insert PC_piggyback_cached picked_bits - {PC_valid} - {PC_reclaim} - {PC_locked} = {PC_piggyback_cached}"
     "picked_bits - {PC_valid} - {PC_reclaim} - {PC_locked} = {}" by auto
  show ?thesis
  proof (cases "evict_dirty r s \<and> pbo = ENABLE_PIGGYBACK")
    case True
    define t where "t = evict_mid s p k (evict_meta (insert PC_piggyback_cached picked_bits - {PC_valid}) [] (evict_pb e r))
      (evict_pset p [evict_entry p r] (pset s k)) (evict_slots r s) ((pee_used s)(p := True)) (Some p) ((ptes s)(page_table r := 0))
      (net s) (evict_tlb r s)"
    have "pcache_free_reserved_rmap p (SetPcache PC_piggyback_cached p (?s3\<lparr>piggybacker := Some p\<rparr>)) = Some (PCACHE_RMAP_SUCCEED, t)"
      by (subst pcache_free_reserved_single [where r = r]) (use rr us in \<open>simp_all add: evict_stages t_def pc_defs evict_slots_def cong: option.case_cong\<close>)
    then have A: "evict_line_perset_list e k p pbo ?s1 = Some (0, t)"
      using True by (simp add: evict_line_perset_list_def s2 s3 set_per_cpu_piggybacker_def) (simp add: evict_stages)
    have B: "put_pcache_nolru e p (t\<lparr>meta := (meta t)(p := (meta t p)
        \<lparr>refcount := 0, bits := bits (meta t p) - {PC_reclaim} - {PC_locked}\<rparr>)\<rparr>) = Some (evicted_piggy e p r s)"
      using p(2) by (simp add: put_defs t_def bs evicted_piggy_def evict_meta_def Let_def)
    show ?thesis using that [OF r] fin [OF A _ _ _ B] True by (simp add: t_def evict_meta_def)
  next
    case False
    let ?net = "net s @ (if evict_dirty r s then [evict_flush e p r s] else [])"
    define s4 where "s4 = ?s3\<lparr>net := ?net\<rparr>"
    define t where "t = (\<lambda>xs pee. evict_mid s p k (evict_meta (picked_bits - {PC_valid}) [] (evict_pb e r)) (evict_pset p xs (pset s k))
      (evict_slots r s) pee None ((ptes s)(page_table r := 0)) ?net (evict_tlb r s))"
    have s4: "(if evict_dirty r s then pcache_flush_one e p ?s3 else Some ?s3) = Some s4"
      using pcache_flush_one_single [of ?s3 p "r\<lparr>rm_reserved := True\<rparr>" e] p by (simp add: s4_def evict_stages evict_flush_def)
    have fr: "pcache_free_reserved_rmap p s4 = Some (PCACHE_RMAP_SUCCEED, t [evict_entry p r] ((pee_used s)(p := True)))"
      by (subst pcache_free_reserved_single [where r = r])
         (use rr us in \<open>simp_all add: s4_def t_def evict_stages evict_slots_def cong: option.case_cong\<close>)
    have "(pee_used s)(p := False) = pee_used s" using npee by (simp add: fun_eq_iff)
    then have rm: "pset_remove_eviction k p 1 (t [evict_entry p r] ((pee_used s)(p := True))) = Some (t [] (pee_used s))"
      by (subst pset_remove_eviction_single [where x = "evict_entry p r"]) (simp_all add: t_def evict_entry_def)
    have A: "evict_line_perset_list e k p pbo ?s1 = Some (0, t [] (pee_used s))"
      using False fr rm s4 by (auto simp: evict_line_perset_list_def s2 s3)
    let ?u = "t [] (pee_used s)"
    have B: "put_pcache_nolru e p (?u\<lparr>meta := (meta ?u)(p := (meta ?u p)
        \<lparr>refcount := 0, bits := bits (meta ?u p) - {PC_reclaim} - {PC_locked}\<rparr>)\<rparr>) = Some (evicted_line e p r s)"
      using p pinvD(6) [OF inv] by (simp add: put_defs t_def bs evicted_line_def evict_meta_def Let_def meta_to_set
          enqueue_free_list_head_def upd_pset_def)
    show ?thesis using that [OF r] fin [OF A _ _ _ B] False by (auto simp: t_def evict_meta_def)
  qed
qed

text \<open>With the page table lock of the victim's mapping held by this CPU, the eviction spins forever.\<close>

lemma pcache_evict_line_deadlock:
  assumes inv: "pinv e L H None s" and k: "k < nsets e"
    and f: "find (evictable s) (rev (lru_list (pset s k))) = Some p"
    and ptl: "r \<in> set (rmap (meta s p))" "pte_lockptr e (owner_mm r) (rm_address r) \<in> ptl_held s"
  shows "pcache_evict_line e k address pbo s = None"
proof -
  obtain r' s0 where r: "rmap (meta s p) = [r']" and ro: "rmap_ok e s p r'" and p: "p < nl e" "set_of e p = k"
    and pfn: "pcache_meta_to_pfn (geom e) p = Some (pte_pfn (ptes s (page_table r')))"
    and find: "evict_find_line_lru e k (SetPset PCACHE_SET_evicting k s) = Some (Some p, s0)"
    and s1: "ClearPset PCACHE_SET_evicting k s0 = evict1 p k r' s"
    and s2: "pset_add_eviction e p (evict1 p k r' s) = Some (1, evict2 e p k r' s)"
    using evict_prefix [OF inv k f] by metis
  have rr: "pte_ptr e (owner_mm r) (rm_address r) = page_table r" "r' = r"
    using ro ptl(1) r by (simp_all add: rmap_ok_def maps_line_def)
  have "pcache_try_to_unmap_reserve_check_dirty e p (evict2 e p k r s) = None"
    using rr pfn ptl(2)
    by (simp add: evict_stages pcache_try_to_unmap_reserve_check_dirty_def rmap_walk_def pcache_try_to_unmap_reserve_one_def
        rmap_get_pte_locked_def spin_lock_ptl_def PcacheBit_def pcache_mapped_def)
  then have "evict_line_perset_list e k p pbo (evict1 p k r s) = None" using s2 rr by (simp add: evict_line_perset_list_def)
  then show ?thesis
    using find s1 rr by (simp add: pcache_evict_line_def PcacheBit_def pcache_mapcount_def)
qed

text \<open>Evicting keeps the invariant; with piggybacking, together with the allocation that follows.\<close>

lemma evicted_line_pinv:
  assumes inv: "pinv e L H None s" and p: "p < nl e" "p \<notin> L" "p \<notin> H" and r: "rmap (meta s p) = [r]"
    and one: "bits (meta s p) = {PC_valid}" "mapcount (meta s p) = 1"
  shows "pinv e L H None (evicted_line e p r s)"
proof -
  let ?t = "free_line e p (set_ref p 1 (unmap_line p r s))"
  note D = pinvD [OF inv]
  have el: "eviction_list (pset s (set_of e p)) = []" "nr_eviction_entries (pset s (set_of e p)) = 0"
    using D(4) set_of_less [OF D(1), of p] by (simp_all add: evicts_ok_def evict_list_of_def)
  have "pinv e L (insert p H - {p}) None ?t"
    by (rule pinv_free_line [OF pinv_unmap_last [OF inv p(1) r p(2)]]) simp_all
  then have "pinv e L H None ?t" using p(3) by simp
  then show ?thesis
    by (rule pinv_sets_meta_frame)
       (use r one el in \<open>auto simp: evicted_line_def Let_def evict_mid_def free_line_def set_ref_def unmap_line_def evict_slots_def
         cong: option.case_cong\<close>)
qed

lemma evicted_piggy_alloc:
  assumes inv: "pinv e L H None s" and p: "p < nl e" "p \<notin> L" and lru: "in_lru e s p" and r: "rmap (meta s p) = [r]"
    and one: "bits (meta s p) = {PC_valid}" "mapcount (meta s p) = 1" and k: "set_of e p = k"
  obtains u where "pcache_alloc_fastpath k (evicted_piggy e p r s) = (Some p, u)" "pinv e L (insert p H) (Some p) u"
    "ptes u = (ptes s)(page_table r := 0)" "line u = line s" "net u = net s" "tlb_flushes u = evict_tlb r s" "ptl_held u = ptl_held s"
    "pb (meta u p) = evict_pb e r" "\<And>q. q \<noteq> p \<Longrightarrow> meta u q = meta s q" "nr_kzalloc u = nr_kzalloc s"
    "rmap_used u = evict_slots r s" "eviction_list (pset u k) = [evict_entry p r]"
proof -
  let ?t = "piggy_line e p (evict_entry p r) (set_ref p 1 (unmap_line p r s))"
  define u where "u = snd (pcache_alloc_fastpath k (evicted_piggy e p r s))"
  have fp: "pcache_alloc_fastpath k (evicted_piggy e p r s) = (Some p, u)"
    unfolding u_def by (simp add: pcache_alloc_fastpath_def get_per_cpu_piggybacker_def evicted_piggy_def Let_def)
  have mu: "meta u = (meta s)(p := \<lparr>bits = {PC_piggyback}, mapcount = 0, refcount = 1, rmap = [], pb = evict_pb e r\<rparr>)"
    "pset u = (pset s)(k := (evict_pset p [evict_entry p r] (pset s k))
        \<lparr>lru_list := p # remove1 p (lru_list (pset s k)), nr_lru := nr_lru (pset s k)\<rparr>)"
    "rmap_used u = evict_slots r s" "pee_used u = (pee_used s)(p := True)" "piggybacker u = None"
    "ptes u = (ptes s)(page_table r := 0)" "line u = line s" "net u = net s" "tlb_flushes u = evict_tlb r s" "ptl_held u = ptl_held s"
    "nr_kzalloc u = nr_kzalloc s" "bad_pcache_printed u = bad_pcache_printed s"
    by (simp_all add: u_def pcache_alloc_fastpath_def evicted_piggy_def Let_def k pc_defs evict_mid_def)
  have pl: "p \<in> set (lru_list (pset s k))" using lru k by (simp add: in_lru_def)
  have "pinv e L (insert p H) (Some p) ?t"
    by (rule pinv_piggy_line [OF pinv_unmap_last [OF inv p(1) r p(2)]]) (simp_all add: evict_entry_def)
  then have "pinv e L (insert p H) (Some p) u"
    by (rule pinv_sets_meta_frame)
       (use r one pl pinvD(6) [OF inv] in \<open>auto simp: mu k piggy_line_def Let_def set_ref_def unmap_line_def evict_slots_def
         cong: option.case_cong\<close>)
  with fp show ?thesis by (rule that) (simp_all add: mu)
qed


subsection \<open>What an allocation does\<close>

text \<open>
  The line comes from the free list, or it is the victim of an eviction, whose only mapping is
  gone. The dirty content of the victim is on its way to the memory component, or it is still in
  the line, which then carries the address it belongs to (\<open>B = Some p\<close>).
\<close>

definition alloc_effect :: "penv \<Rightarrow> piggyback_options \<Rightarrow> nat \<Rightarrow> nat option \<Rightarrow> pstate \<Rightarrow> pstate \<Rightarrow> bool" where
  "alloc_effect e pbo p B s s' \<longleftrightarrow>
     line s' = line s \<and> ptl_held s' = ptl_held s \<and> nr_kzalloc s' = nr_kzalloc s \<and> (\<forall>q. q \<noteq> p \<longrightarrow> meta s' q = meta s q) \<and>
     (B = None \<and> in_free e s p \<and> ptes s' = ptes s \<and> net s' = net s \<or>
      (\<exists>r. rmap (meta s p) = [r] \<and> in_lru e s p \<and> evictable s p \<and> ptes s' = (ptes s)(page_table r := 0) \<and>
         (if evict_dirty r s \<and> pbo = ENABLE_PIGGYBACK
          then B = Some p \<and> net s' = net s \<and> pb (meta s' p) = evict_pb e r
          else B = None \<and> net s' = net s @ (if evict_dirty r s then [evict_flush e p r s] else []))))"

definition victim_of :: "nat \<Rightarrow> pstate \<Rightarrow> nat option" where
  "victim_of k s = find (evictable s) (rev (lru_list (pset s k)))"

definition victim_unlocked :: "penv \<Rightarrow> nat \<Rightarrow> pstate \<Rightarrow> bool" where
  "victim_unlocked e k s \<longleftrightarrow> (free_head (pset s k) \<noteq> [] \<or> (case victim_of k s of None \<Rightarrow> True | Some p \<Rightarrow>
     (\<forall>r \<in> set (rmap (meta s p)). pte_lockptr e (owner_mm r) (rm_address r) \<notin> ptl_held s)))"

lemma fastpath_none:
  assumes "pinv e L H B s" "free_head (pset s k) = []"
  shows "pcache_alloc_fastpath k s = (None, s)"
  using assms pinvD(6) [OF assms(1)] by (simp add: pcache_alloc_fastpath_def get_per_cpu_piggybacker_def)

declare pcache_alloc_loop.simps [simp del]

lemma pcache_alloc_loop_hit:
  assumes "pcache_alloc_fastpath k s = (Some p, u)" "pbo = ENABLE_PIGGYBACK \<or> PC_piggyback \<notin> bits (meta u p)"
  shows "pcache_alloc_loop n e k address pbo s = Some (Some p, u)"
  using assms by (auto simp: pcache_alloc_loop.simps [of n] PcacheBit_def)

lemma pcache_alloc_loop_again:
  assumes "pcache_alloc_fastpath k s = (None, s)" "pcache_evict_line e k address pbo s = Some (ret, t)"
    "ret \<noteq> PCACHE_EVICT_FAILURE_FIND" "ret \<noteq> PCACHE_EVICT_FAILURE_EVICT"
  shows "pcache_alloc_loop n e k address pbo s =
     (case n of 0 \<Rightarrow> Some (None, t) | Suc m \<Rightarrow> pcache_alloc_loop m e k address pbo t)"
  using assms by (simp add: pcache_alloc_loop.simps [of n])

lemma pcache_alloc_loop_free:
  assumes inv: "pinv e L H None s" and k: "k < nsets e" and f: "free_head (pset s k) \<noteq> []"
  obtains p s' where "pcache_alloc_loop n e k address pbo s = Some (Some p, s')" "p < nl e" "set_of e p = k" "p \<notin> H" "p \<notin> L"
    "pinv e L (insert p H) None s'" "alloc_effect e pbo p None s s'" "p = hd (free_head (pset s k))"
proof -
  obtain p fs where pf: "free_head (pset s k) = p # fs" using f by (cases "free_head (pset s k)") auto
  have pk: "p \<in> set (free_head (pset s k))" using pf by simp
  obtain s' where s': "pcache_alloc_fastpath k s = (Some p, s')" "pinv e L (insert p H) None s'" "same_memory s s'"
    "p < nl e" "set_of e p = k" "p \<notin> H" and q: "\<And>q. q \<noteq> p \<Longrightarrow> meta s' q = meta s q"
    using fastpath_free [OF inv k pf] by metis
  have l: "line_ok e L (insert p H) None s' p" by (rule line_okD [OF pinvD(3) [OF s'(2)] s'(4)])
  have "PC_piggyback \<notin> bits (meta s' p)" using l by (simp add: line_ok_def)
  then have ap: "pcache_alloc_loop n e k address pbo s = Some (Some p, s')" using s'(1) by (simp add: pcache_alloc_loop_hit)
  have "p \<notin> L" using pinvD(10) [OF s'(2)] by auto
  moreover have "alloc_effect e pbo p None s s'"
    using s'(3) q list_member_set(1) [OF pinvD(2) [OF inv] k pk] by (simp add: alloc_effect_def same_memory_def)
  ultimately show ?thesis by (rule that [OF ap s'(4-6) _ s'(2)]) (simp add: pf)
qed

lemma pcache_alloc_loop_evict:
  assumes inv: "pinv e L H None s" and k: "k < nsets e" and f: "free_head (pset s k) = []"
    and v: "victim_of k s = Some p" and ptl: "victim_unlocked e k s"
  obtains B s' where "pcache_alloc_loop (Suc n) e k address pbo s = Some (Some p, s')" "p < nl e" "set_of e p = k" "p \<notin> H" "p \<notin> L"
    "pinv e L (insert p H) B s'" "B = None \<or> B = Some p \<and> pbo = ENABLE_PIGGYBACK" "alloc_effect e pbo p B s s'"
proof -
  have fv: "find (evictable s) (rev (lru_list (pset s k))) = Some p" using v by (simp add: victim_of_def)
  have ev: "evictable s p" using fv unfolding find_Some_iff by metis
  obtain r where r: "rmap (meta s p) = [r]" and p: "p < nl e" "set_of e p = k" "p \<notin> H" "p \<notin> L"
    and b: "bits (meta s p) = {PC_valid}" and mc: "mapcount (meta s p) = 1" and pl: "p \<in> set (lru_list (pset s k))"
    using picked_facts [OF inv k fv] by metis
  have lru: "in_lru e s p" using pl p by (simp add: in_lru_def)
  have evl: "pcache_evict_line e k address pbo s = Some (PCACHE_EVICT_SUCCEED,
         if evict_dirty r s \<and> pbo = ENABLE_PIGGYBACK then evicted_piggy e p r s else evicted_line e p r s)"
  proof -
    obtain r' where "rmap (meta s p) = [r']" "pcache_evict_line e k address pbo s = Some (PCACHE_EVICT_SUCCEED,
         if evict_dirty r' s \<and> pbo = ENABLE_PIGGYBACK then evicted_piggy e p r' s else evicted_line e p r' s)"
      using ptl by (rule_tac pcache_evict_line_eq [OF inv k fv]) (auto simp: victim_unlocked_def v f)
    then show ?thesis using r by simp
  qed
  have again: "pcache_alloc_loop (Suc n) e k address pbo s = pcache_alloc_loop n e k address pbo
      (if evict_dirty r s \<and> pbo = ENABLE_PIGGYBACK then evicted_piggy e p r s else evicted_line e p r s)"
    using pcache_alloc_loop_again [OF fastpath_none [OF inv f] evl] by simp
  show ?thesis
  proof (cases "evict_dirty r s \<and> pbo = ENABLE_PIGGYBACK")
    case True
    obtain u where u: "pcache_alloc_fastpath k (evicted_piggy e p r s) = (Some p, u)" "pinv e L (insert p H) (Some p) u"
      "ptes u = (ptes s)(page_table r := 0)" "line u = line s" "net u = net s" "ptl_held u = ptl_held s"
      "pb (meta u p) = evict_pb e r" "\<And>q. q \<noteq> p \<Longrightarrow> meta u q = meta s q" "nr_kzalloc u = nr_kzalloc s"
      using evicted_piggy_alloc [OF inv p(1,4) lru r b mc p(2)] by metis
    have "pcache_alloc_loop (Suc n) e k address pbo s = Some (Some p, u)"
      unfolding again using True pcache_alloc_loop_hit [OF u(1), of pbo] by simp
    moreover have "alloc_effect e pbo p (Some p) s u" using u True r lru ev by (simp add: alloc_effect_def)
    ultimately show ?thesis using that p u(2) True by blast
  next
    case False
    let ?t = "evicted_line e p r s"
    have t: "pinv e L H None ?t" by (rule evicted_line_pinv [OF inv p(1,4,3) r b mc])
    have fh: "free_head (pset ?t k) = [p]" using p f by (simp add: evicted_line_def Let_def)
    obtain u where u: "pcache_alloc_fastpath k ?t = (Some p, u)" "pinv e L (insert p H) None u" "same_memory ?t u"
      and q: "\<And>q. q \<noteq> p \<Longrightarrow> meta u q = meta ?t q"
      using fastpath_free [OF t k fh] by metis
    have "PC_piggyback \<notin> bits (meta u p)" using line_okD [OF pinvD(3) [OF u(2)] p(1)] by (simp add: line_ok_def)
    then have "pcache_alloc_loop (Suc n) e k address pbo s = Some (Some p, u)"
      unfolding again using False pcache_alloc_loop_hit [OF u(1), of pbo] by auto
    moreover have "alloc_effect e pbo p None s u"
      using u(3) False r lru ev q by (auto simp: alloc_effect_def same_memory_def evicted_line_def Let_def evict_mid_def)
    ultimately show ?thesis using that p u(2) by blast
  qed
qed


text \<open>With no free line and no line that can be evicted, the allocation gives up after the timeout.\<close>

lemma pcache_evict_line_none:
  assumes inv: "pinv e L H None s" and k: "k < nsets e" and v: "victim_of k s = None"
  shows "pcache_evict_line e k address pbo s =
    Some (PCACHE_EVICT_EAGAIN_FREEABLE, ClearPset PCACHE_SET_evicting k (SetPset PCACHE_SET_evicting k s))"
proof -
  let ?s0 = "SetPset PCACHE_SET_evicting k s"
  have m0: "meta ?s0 = meta s" "lru_list (pset ?s0 k) = lru_list (pset s k)" by (simp_all add: pc_defs)
  have ev0: "evictable ?s0 = evictable s" by (simp add: evictable_def fun_eq_iff m0)
  have "evict_find_line_lru e k ?s0 = Some (None, ?s0)"
    using evict_find_line_from_eq [of "rev (lru_list (pset s k))" ?s0 e k] lru_quiet [OF inv k] v
    by (simp add: evict_find_line_lru_def m0 ev0 victim_of_def)
  then show ?thesis by (simp add: pcache_evict_line_def)
qed

lemma pinv_clear_evicting:
  assumes "pinv e L H B s"
  shows "pinv e L H B (ClearPset PCACHE_SET_evicting k (SetPset PCACHE_SET_evicting k s))"
  by (rule pinv_sets_meta_frame [OF assms]) (auto simp: pc_defs)

lemma pcache_alloc_loop_none:
  assumes "pinv e L H None s" and k: "k < nsets e" and "free_head (pset s k) = []" and "victim_of k s = None"
  obtains s' where "pcache_alloc_loop n e k address pbo s = Some (None, s')" "pinv e L H None s'"
    "same_memory s s'" "meta s' = meta s"
  using assms(1,3,4)
proof (induction n arbitrary: s thesis)
  case 0
  let ?t = "ClearPset PCACHE_SET_evicting k (SetPset PCACHE_SET_evicting k s)"
  have "pcache_alloc_loop 0 e k address pbo s = Some (None, ?t)"
    using pcache_alloc_loop_again [OF fastpath_none [OF 0(2,3)] pcache_evict_line_none [OF 0(2) k 0(4)], of 0] by simp
  then show ?case
    by (rule 0(1)) (use pinv_clear_evicting [OF 0(2)] in \<open>simp_all add: same_memory_def pc_defs\<close>)
next
  case (Suc n)
  let ?t = "ClearPset PCACHE_SET_evicting k (SetPset PCACHE_SET_evicting k s)"
  have st: "pcache_alloc_loop (Suc n) e k address pbo s = pcache_alloc_loop n e k address pbo ?t"
    using pcache_alloc_loop_again [OF fastpath_none [OF Suc(3,4)] pcache_evict_line_none [OF Suc(3) k Suc(5)], of "Suc n"] by simp
  have v: "victim_of k ?t = None" "free_head (pset ?t k) = []"
    using Suc(4,5) by (simp_all add: victim_of_def pc_defs)
  have f: "meta ?t = meta s" "same_memory s ?t" by (simp_all add: same_memory_def pc_defs)
  show ?case
    by (rule Suc.IH [OF _ pinv_clear_evicting [OF Suc(3)] v(2,1)])
       (use Suc(2) st f in \<open>auto simp: same_memory_def\<close>)
qed

text \<open>The allocation as a whole.\<close>

lemma pcache_alloc_cases:
  assumes kd: "k = user_vaddr_to_pcache_set (geom e) address" and inv: "pinv e L H None s" and ptl: "victim_unlocked e k s" and n: "0 < alloc_rounds e"
  obtains
    (got) p B s' where "pcache_alloc e address pbo s = Some (Some p, s')" "p < nl e" "set_of e p = k" "p \<notin> H" "p \<notin> L"
      "pinv e L (insert p H) B s'" "B = None \<or> B = Some p \<and> pbo = ENABLE_PIGGYBACK" "alloc_effect e pbo p B s s'"
      "if free_head (pset s k) = [] then victim_of k s = Some p else p = hd (free_head (pset s k))"
  | (none) s' where "pcache_alloc e address pbo s = Some (None, s')" "free_head (pset s k) = []" "victim_of k s = None"
      "pinv e L H None s'" "same_memory s s'" "meta s' = meta s"
proof -
  have k: "k < nsets e" unfolding kd by (rule vaddr_set_less [OF pinvD(1) [OF inv]])
  obtain m where m: "alloc_rounds e = Suc m" using n by (cases "alloc_rounds e") auto
  have pa: "pcache_alloc e address pbo s = pcache_alloc_loop (Suc m) e k address pbo s"
    by (simp add: pcache_alloc_def kd m)
  show ?thesis
  proof (cases "free_head (pset s k) = []")
    case False
    show ?thesis
      by (rule pcache_alloc_loop_free [OF inv k False, of "Suc m" address pbo], rule got) (assumption | simp add: pa False)+
  next
    case True
    show ?thesis
    proof (cases "victim_of k s")
      case None
      then show ?thesis using pcache_alloc_loop_none [OF inv k True None, of "Suc m" address pbo] none True pa by metis
    next
      case (Some p)
      show ?thesis
        by (rule pcache_alloc_loop_evict [OF inv k True Some ptl, of m address pbo], rule got) (assumption | simp add: pa True Some)+
    qed
  qed
qed


lemma pcache_alloc_deadlock:
  assumes kd: "k = user_vaddr_to_pcache_set (geom e) address" and inv: "pinv e L H None s" and ptl: "\<not> victim_unlocked e k s"
  shows "pcache_alloc e address pbo s = None"
proof -
  obtain p r where f: "free_head (pset s k) = []" "find (evictable s) (rev (lru_list (pset s k))) = Some p"
      "r \<in> set (rmap (meta s p))" "pte_lockptr e (owner_mm r) (rm_address r) \<in> ptl_held s"
    using ptl by (auto simp: victim_unlocked_def victim_of_def split: option.splits)
  have k: "k < nsets e" unfolding kd by (rule vaddr_set_less [OF pinvD(1) [OF inv]])
  show ?thesis
    using pcache_evict_line_deadlock [OF inv k f(2-4)] fastpath_none [OF inv f(1)]
    by (simp add: pcache_alloc_def kd [symmetric] pcache_alloc_loop.simps [of "alloc_rounds e"])
qed

end
