(* ===== verification/Pcache_Fault.thy ===== *)
theory Pcache_Fault
  imports Pcache_Evict
begin

section \<open>Page faults and mremap\<close>

text \<open>
  \<open>managers/processor/pcache/fault.c\<close>: the page fault handler that fills a line from the
  memory component, zero fills it, or resolves a write protection fault by reuse or by copy; and
  from \<open>rmap.c\<close> the two ways of moving a page table entry for \<open>mremap\<close>.

  Where a function takes a page table lock after it has looked at the entry without it,
  \<open>others\<close> stands for what happened in between.
\<close>

definition VM_FAULT_OOM :: int where "VM_FAULT_OOM = 0x0001"
definition VM_FAULT_SIGBUS :: int where "VM_FAULT_SIGBUS = 0x0002"
definition VM_FAULT_SIGSEGV :: int where "VM_FAULT_SIGSEGV = 0x0040"
definition EFAULT :: int where "EFAULT = 14"
definition FAULT_FLAG_WRITE :: u64 where "FAULT_FLAG_WRITE = 0x01"

type_synonym fill_func = "u64 \<Rightarrow> u64 \<Rightarrow> nat \<Rightarrow> pstate \<Rightarrow> (int \<times> pstate) option"

definition piggyback_fallback :: "penv \<Rightarrow> nat \<Rightarrow> pstate \<Rightarrow> pstate option" where
  "piggyback_fallback e p s =
     (let b = pb (meta s p) in do {
        _ \<leftarrow> pcache_meta_to_kva (geom e) p;
        let s = clflush_to e (pb_tgid b) (pb_user_addr b) (pb_memory_nid b) (line s p) s;
        k \<leftarrow> pcache_meta_to_pcache_set (geom e) p;
        s \<leftarrow> pset_remove_eviction k p 1 s;
        Some (ClearPcache PC_piggyback p s) })"

definition common_do_fill_page ::
  "penv \<Rightarrow> nat \<Rightarrow> u64 \<Rightarrow> pte \<Rightarrow> u64 \<Rightarrow> fill_func \<Rightarrow> rmap_caller \<Rightarrow> piggyback_options \<Rightarrow> pstate
     \<Rightarrow> (int \<times> pstate) option" where
  "common_do_fill_page e mm address orig_pte flags fill caller piggyback s = do {
     (a, s) \<leftarrow> pcache_alloc e address piggyback s;
     (case a of
        None \<Rightarrow> Some (VM_FAULT_OOM, s)
      | Some p \<Rightarrow> do {
          entry \<leftarrow> pcache_mk_pte (geom e) (supported_pte_mask e) p PAGE_SHARED_EXEC;
          let ptep = pte_ptr e mm address;
          let ptl = pte_lockptr e mm address;
          s \<leftarrow> spin_lock_ptl ptl (others e s);
          if ptes s ptep \<noteq> orig_pte
          then do {
            s \<leftarrow> (if PcacheBit PC_piggyback p s then piggyback_fallback e p s else Some s);
            s \<leftarrow> put_pcache e p s;
            Some (0, spin_unlock_ptl ptl s) }
          else do {
            (ret, s) \<leftarrow> fill address flags p s;
            if ret \<noteq> 0
            then do { s \<leftarrow> put_pcache e p s; Some (VM_FAULT_SIGSEGV, spin_unlock_ptl ptl s) }
            else do {
              (ret, s) \<leftarrow> pcache_add_rmap e p ptep address mm (group_leader (task e (current e)))
                            caller (pte_set ptep entry s);
              if ret \<noteq> 0
              then do { s \<leftarrow> put_pcache e p (pte_clear ptep s); Some (VM_FAULT_OOM, spin_unlock_ptl ptl s) }
              else Some (0, spin_unlock_ptl ptl s) } } }) }"

definition miss_msg :: "penv \<Rightarrow> u64 \<Rightarrow> u64 \<Rightarrow> p2m_pcache_miss_msg" where
  "miss_msg e address flags =
     \<lparr>ms_pid = pid (task e (current e)), ms_tgid = tgid (task e (current e)), ms_flags = ucast flags,
      ms_missing_vaddr = address\<rparr>"

text \<open>A request whose reply goes into the cache line.\<close>

definition fetch_line :: "penv \<Rightarrow> p2m_msg \<Rightarrow> nat \<Rightarrow> pstate \<Rightarrow> int \<times> pstate" where
  "fetch_line e msg p s =
     (case ibapi_send_reply e msg s of ((len, buf), s) \<Rightarrow> (len, s\<lparr>line := (line s)(p := buf)\<rparr>))"

definition reply_status :: "penv \<Rightarrow> int \<Rightarrow> int" where
  "reply_status e len =
     (if len < int (unat (PCACHE_LINE_SIZE (pconfig (geom e))))
      then (if len = 4 then - EFAULT else if len < 0 then len else - EFAULT)
      else 0)"

definition pcache_do_fill_page_remote :: "penv \<Rightarrow> fill_func" where
  "pcache_do_fill_page_remote e address flags p s = do {
     _ \<leftarrow> pcache_meta_to_kva (geom e) p;
     k \<leftarrow> pcache_meta_to_pcache_set (geom e) p;
     let dst_nid = get_memory_node e (current e) address;
     if PcacheBit PC_piggyback p s
     then (let b = pb (meta s p) in
       if pb_memory_nid b \<noteq> dst_nid
       then do {
         s \<leftarrow> piggyback_fallback e p s;
         (case fetch_line e (P2M_MISS dst_nid (miss_msg e address flags)) p s of
            (len, s) \<Rightarrow> Some (reply_status e len, s)) }
       else
         (case fetch_line e (P2M_MISS_FLUSH dst_nid (miss_msg e address flags)
                 \<lparr>fl_pid = pb_tgid b, fl_user_va = pb_user_addr b, fl_pcacheline = line s p\<rparr>) p s of
            (len, s) \<Rightarrow> do {
              s \<leftarrow> pset_remove_eviction k p 1 s;
              Some (reply_status e len, ClearPcache PC_piggyback p s) }))
     else
       (case fetch_line e (P2M_MISS dst_nid (miss_msg e address flags)) p s of
          (len, s) \<Rightarrow> Some (reply_status e len, s)) }"

definition pcache_do_fill_page ::
  "penv \<Rightarrow> nat \<Rightarrow> u64 \<Rightarrow> pte \<Rightarrow> u64 \<Rightarrow> pstate \<Rightarrow> (int \<times> pstate) option" where
  "pcache_do_fill_page e mm address orig_pte flags s =
     common_do_fill_page e mm address orig_pte flags (pcache_do_fill_page_remote e)
       RMAP_FILL_PAGE_REMOTE ENABLE_PIGGYBACK s"

text \<open>
  The hook that tells the memory component of a zero fill. The kernel is configured without
  \<open>CONFIG_PCACHE_ZEROFILL_NOTIFY_MEMORY\<close>, which is the default, and then the hook is empty.
\<close>

definition submit_zerofill_notify_work :: "nat \<Rightarrow> u64 \<Rightarrow> u64 \<Rightarrow> pstate \<Rightarrow> pstate" where
  "submit_zerofill_notify_work tsk address flags s = s"

definition pcache_do_zerofill :: "penv \<Rightarrow> fill_func" where
  "pcache_do_zerofill e address flags p s = do {
     _ \<leftarrow> pcache_meta_to_kva (geom e) p;
     let s = s\<lparr>line := (line s)(p := replicate (unat (PCACHE_LINE_SIZE (pconfig (geom e)))) 0)\<rparr>;
     Some (0, submit_zerofill_notify_work (current e) address flags s) }"

definition pcache_do_zerofill_page ::
  "penv \<Rightarrow> nat \<Rightarrow> u64 \<Rightarrow> pte \<Rightarrow> u64 \<Rightarrow> pstate \<Rightarrow> (int \<times> pstate) option" where
  "pcache_do_zerofill_page e mm address orig_pte flags s =
     (if \<not> pte_zerofill orig_pte then Some (VM_FAULT_SIGBUS, s)
      else common_do_fill_page e mm address orig_pte flags (pcache_do_zerofill e)
             RMAP_ZEROFILL DISABLE_PIGGYBACK s)"

definition cow_pcache :: "penv \<Rightarrow> nat \<Rightarrow> nat \<Rightarrow> pstate \<Rightarrow> pstate option" where
  "cow_pcache e dst src s = do {
     _ \<leftarrow> pcache_meta_to_kva (geom e) dst;
     _ \<leftarrow> pcache_meta_to_kva (geom e) src;
     Some (s\<lparr>line := (line s)(dst := line s src)\<rparr>) }"

text \<open>The copy branch of the write protection fault, from \<open>pcache_alloc\<close> on.\<close>

definition wp_copy ::
  "penv \<Rightarrow> nat \<Rightarrow> u64 \<Rightarrow> nat \<Rightarrow> nat \<Rightarrow> pstate \<Rightarrow> (int \<times> pstate) option" where
  "wp_copy e mm address ptep old_pcm s = do {
     let t = task e (current e);
     (a, s) \<leftarrow> pcache_alloc e address DISABLE_PIGGYBACK s;
     (case a of
        None \<Rightarrow> Some (VM_FAULT_OOM, s)
      | Some new_pcm \<Rightarrow> do {
          s \<leftarrow> cow_pcache e new_pcm old_pcm s;
          entry \<leftarrow> pcache_mk_pte (geom e) (supported_pte_mask e) new_pcm PAGE_SHARED_EXEC;
          let entry = pte_mkwrite (pte_mkdirty entry);
          let s = flush_tlb_mm_range mm address (address + PAGE_SIZE) (pte_set ptep entry s);
          (ret, s) \<leftarrow> pcache_add_rmap e new_pcm ptep address (task_mm t) (group_leader t) RMAP_COW s;
          if ret \<noteq> 0
          then do { s \<leftarrow> put_pcache e new_pcm s; Some (VM_FAULT_OOM, pte_clear ptep s) }
          else do {
            s \<leftarrow> pcache_remove_rmap old_pcm ptep address (task_mm t) s;
            s \<leftarrow> put_pcache e old_pcm s;
            Some (0, s) } }) }"

definition pcache_do_wp_page ::
  "penv \<Rightarrow> nat \<Rightarrow> u64 \<Rightarrow> nat \<Rightarrow> nat \<Rightarrow> pte \<Rightarrow> pstate \<Rightarrow> (int \<times> pstate) option" where
  "pcache_do_wp_page e mm address ptep ptl orig_pte s =
     (case pte_to_pcache_meta (geom e) orig_pte of
        None \<Rightarrow> Some (VM_FAULT_SIGBUS, spin_unlock_ptl ptl s)
      | Some old_pcm \<Rightarrow> do {
          bug_on (\<not> PcacheBit PC_valid old_pcm s);
          bug_on (\<not> pcache_mapped old_pcm s);
          (locked, s) \<leftarrow> lock_pcache_pte_held e old_pcm ptep orig_pte ptl s;
          if \<not> locked then do { s \<leftarrow> put_pcache e old_pcm (spin_unlock_ptl ptl s); Some (0, s) }
          else if pcache_mapcount old_pcm s = 1
          then do {
            s \<leftarrow> unlock_pcache old_pcm
                   (pte_set ptep (pte_mkwrite (pte_mkdirty (pte_mkyoung orig_pte))) s);
            Some (0, spin_unlock_ptl ptl s) }
          else do {
            (ret, s) \<leftarrow> wp_copy e mm address ptep old_pcm s;
            s \<leftarrow> unlock_pcache old_pcm s;
            Some (ret, spin_unlock_ptl ptl s) } })"

text \<open>Waiting until no eviction of the address is in flight, at most \<open>n\<close> rounds.\<close>

fun wait_eviction :: "nat \<Rightarrow> penv \<Rightarrow> u64 \<Rightarrow> pstate \<Rightarrow> pstate option" where
  "wait_eviction n e address s =
     (if pset_find_eviction e address (current e) s
      then (case n of 0 \<Rightarrow> None | Suc n \<Rightarrow> wait_eviction n e address (others e s))
      else Some s)"

definition pcache_handle_pte_fault ::
  "penv \<Rightarrow> nat \<Rightarrow> u64 \<Rightarrow> nat \<Rightarrow> u64 \<Rightarrow> pstate \<Rightarrow> (int \<times> pstate) option" where
  "pcache_handle_pte_fault e mm address ptep flags s =
     (let entry = ptes s ptep in
      if \<not> pte_present entry
      then (if pte_none entry
            then do {
              s \<leftarrow> wait_eviction (spin_rounds e) e address s;
              pcache_do_fill_page e mm address entry flags s }
            else pcache_do_zerofill_page e mm address entry flags s)
      else do {
        let ptl = pte_lockptr e mm address;
        s \<leftarrow> spin_lock_ptl ptl (others e s);
        if ptes s ptep \<noteq> entry then Some (0, spin_unlock_ptl ptl s)
        else if flags AND FAULT_FLAG_WRITE \<noteq> 0 \<and> \<not> pte_write entry
        then pcache_do_wp_page e mm address ptep ptl entry s
        else Some (0, spin_unlock_ptl ptl s) })"

definition pcache_handle_fault :: "penv \<Rightarrow> nat \<Rightarrow> u64 \<Rightarrow> u64 \<Rightarrow> pstate \<Rightarrow> (int \<times> pstate) option" where
  "pcache_handle_fault e mm address flags s =
     (if \<not> pte_alloc_ok e mm address then Some (VM_FAULT_OOM, s)
      else pcache_handle_pte_fault e mm address (pte_ptr e mm address) flags s)"

subsection \<open>Moving a page table entry\<close>

definition move_rmap :: "nat \<Rightarrow> pcache_rmap \<Rightarrow> nat \<Rightarrow> u64 \<Rightarrow> pstate \<Rightarrow> pstate" where
  "move_rmap p r new_pte new_addr s =
     upd_meta p (\<lambda>m. m\<lparr>rmap := map (\<lambda>x. if x = r
        then x\<lparr>page_table := new_pte, rm_address := new_addr\<rparr> else x) (rmap m)\<rparr>) s"

definition pcache_move_pte_fastpath_one ::
  "penv \<Rightarrow> nat \<Rightarrow> nat \<Rightarrow> nat \<Rightarrow> nat \<Rightarrow> u64 \<Rightarrow> u64 \<Rightarrow> bool rmap_one" where
  "pcache_move_pte_fastpath_one e p mm old_pte new_pte old_addr new_addr r updated s =
     (if matched_rmap r old_pte mm old_addr
      then (case ptep_get_and_clear old_pte (move_rmap p r new_pte new_addr s) of
        (old_ptent, s) \<Rightarrow> do {
          bug_on (pte_to_pcache_meta (geom e) old_ptent \<noteq> Some p);
          let s = pte_set new_pte old_ptent s;
          validate_pcache_rmap e p (r\<lparr>page_table := new_pte, rm_address := new_addr\<rparr>) s;
          Some (PCACHE_RMAP_SUCCEED, True, s) })
      else Some (PCACHE_RMAP_AGAIN, updated, s))"

definition pcache_move_pte_fastpath ::
  "penv \<Rightarrow> nat \<Rightarrow> nat \<Rightarrow> nat \<Rightarrow> u64 \<Rightarrow> u64 \<Rightarrow> nat \<Rightarrow> pstate \<Rightarrow> (int \<times> pstate) option" where
  "pcache_move_pte_fastpath e mm old_pte new_pte old_addr new_addr old_ptl s =
     (let old_ptent = ptes s old_pte in
      case pte_to_pcache_meta (geom e) old_ptent of
        None \<Rightarrow> None
      | Some p \<Rightarrow> do {
          (locked, s) \<leftarrow> lock_pcache_pte_held e p old_pte old_ptent old_ptl s;
          if \<not> locked then do { s \<leftarrow> put_pcache e p s; Some (- EAGAIN, s) }
          else do {
            (_, updated, s) \<leftarrow>
              rmap_walk p (pcache_move_pte_fastpath_one e p mm old_pte new_pte old_addr new_addr)
                no_done False s;
            s \<leftarrow> unlock_pcache p s;
            bug_on (\<not> updated);
            Some (0, s) } })"

definition pcache_move_pte_slowpath_one ::
  "penv \<Rightarrow> nat \<Rightarrow> nat \<Rightarrow> nat \<Rightarrow> nat \<Rightarrow> nat \<Rightarrow> u64 \<Rightarrow> u64 \<Rightarrow> bool rmap_one" where
  "pcache_move_pte_slowpath_one e old_pcm new_pcm mm old_pte new_pte old_addr new_addr r updated s =
     (if \<not> matched_rmap r old_pte mm old_addr then Some (PCACHE_RMAP_AGAIN, updated, s)
      else do {
        let t = task e (current e);
        s \<leftarrow> cow_pcache e new_pcm old_pcm s;
        (case ptep_get_and_clear old_pte s of
           (old_pte_entry, s) \<Rightarrow> do {
             bug_on (pte_to_pcache_meta (geom e) old_pte_entry \<noteq> Some old_pcm);
             s \<leftarrow> pcache_remove_one_rmap old_pcm r s;
             new_pte_entry \<leftarrow> pcache_dup_pte_pgprot (geom e) (supported_pte_mask e) new_pcm old_pte_entry;
             (ret, s) \<leftarrow> pcache_add_rmap e new_pcm new_pte new_addr (task_mm t) (group_leader t)
                           RMAP_MREMAP_SLOWPATH (pte_set new_pte new_pte_entry s);
             Some (if ret \<noteq> 0 then (PCACHE_RMAP_AGAIN, updated, s) else (PCACHE_RMAP_SUCCEED, True, s)) }) })"

definition pcache_move_pte_slowpath ::
  "penv \<Rightarrow> nat \<Rightarrow> nat \<Rightarrow> nat \<Rightarrow> u64 \<Rightarrow> u64 \<Rightarrow> nat \<Rightarrow> pstate \<Rightarrow> (int \<times> pstate) option" where
  "pcache_move_pte_slowpath e mm old_pte new_pte old_addr new_addr old_ptl s =
     (let old_pte_entry = ptes s old_pte in
      case pte_to_pcache_meta (geom e) old_pte_entry of
        None \<Rightarrow> None
      | Some old_pcm \<Rightarrow> do {
          (a, s) \<leftarrow> pcache_alloc e new_addr DISABLE_PIGGYBACK s;
          (case a of
             None \<Rightarrow> Some (- ENOMEM, s)
           | Some new_pcm \<Rightarrow> do {
               (locked, s) \<leftarrow> lock_pcache_pte_held e old_pcm old_pte old_pte_entry old_ptl s;
               if \<not> locked then do { s \<leftarrow> put_pcache e old_pcm s; Some (- EAGAIN, s) }
               else do {
                 (_, updated, s) \<leftarrow>
                   rmap_walk old_pcm (pcache_move_pte_slowpath_one e old_pcm new_pcm mm old_pte new_pte
                     old_addr new_addr) no_done False s;
                 s \<leftarrow> unlock_pcache old_pcm s;
                 bug_on (\<not> updated);
                 s \<leftarrow> put_pcache e old_pcm s;
                 Some (0, s) } }) })"

definition pcache_move_pte ::
  "penv \<Rightarrow> nat \<Rightarrow> nat \<Rightarrow> nat \<Rightarrow> u64 \<Rightarrow> u64 \<Rightarrow> nat \<Rightarrow> pstate \<Rightarrow> (int \<times> pstate) option" where
  "pcache_move_pte e mm old_pte new_pte old_addr new_addr old_ptl s =
     (if user_vaddr_to_set_index (geom e) old_addr = user_vaddr_to_set_index (geom e) new_addr
      then pcache_move_pte_fastpath e mm old_pte new_pte old_addr new_addr old_ptl s
      else pcache_move_pte_slowpath e mm old_pte new_pte old_addr new_addr old_ptl s)"

subsection \<open>Writing back a piggybacked line\<close>

lemma meta_kva: "p < nl e \<Longrightarrow> \<exists>v. pcache_meta_to_kva (geom e) p = Some v"
  by (simp add: pcache_meta_to_kva_def nl_def nr_lines_def)

lemma unpiggy_eq:
  assumes inv: "pinv e L H (Some p) s"
  obtains s1 where "pset_remove_eviction (set_of e p) p 1 s = Some s1"
    "ClearPcache PC_piggyback p s1 = unpiggy_line e p s" "p < nl e"
proof -
  note D = pinvD [OF inv]
  have p: "p < nl e" using D(8,9) by blast
  have "evict_list_of e (Some p) (set_of e p) (eviction_list (pset s (set_of e p)))"
    and n0: "nr_eviction_entries (pset s (set_of e p)) = int (length (eviction_list (pset s (set_of e p))))" "pee_used s p"
    using D(4) set_of_less [OF D(1), of p] p by (auto simp: evicts_ok_def)
  then obtain x where x: "eviction_list (pset s (set_of e p)) = [x]" "pe_pcm x = p" "pe_slot x = Some p"
    by (auto simp: evict_list_of_def)
  have n: "nr_eviction_entries (pset s (set_of e p)) = 1" "pee_used s p" using n0 x by auto
  show ?thesis
    by (rule that [OF pset_remove_eviction_single [OF x n(2)] _ p])
       (rule pstate.equality; simp add: pc_defs unpiggy_line_def Let_def n)
qed

lemma unpiggy_net: "unpiggy_line e p (s\<lparr>net := n\<rparr>) = (unpiggy_line e p s)\<lparr>net := n\<rparr>"
  by (simp add: unpiggy_line_def Let_def)

lemma unpiggy_meta: "q \<noteq> p \<Longrightarrow> meta (unpiggy_line e p s) q = meta s q"
  by (simp add: unpiggy_line_def Let_def)

lemma unpiggy_mem: "line (unpiggy_line e p s) = line s" "ptes (unpiggy_line e p s) = ptes s"
    "net (unpiggy_line e p s) = net s" "ptl_held (unpiggy_line e p s) = ptl_held s"
  by (simp_all add: unpiggy_line_def Let_def)

definition piggyback_flush :: "penv \<Rightarrow> nat \<Rightarrow> pstate \<Rightarrow> p2m_msg" where
  "piggyback_flush e p s = (let b = pb (meta s p) in
     P2M_FLUSH (pb_memory_nid b) \<lparr>fl_pid = pb_tgid b,
       fl_user_va = pb_user_addr b AND PCACHE_LINE_MASK (pconfig (geom e)), fl_pcacheline = line s p\<rparr>)"

lemma piggyback_fallback_eq:
  assumes inv: "pinv e L H (Some p) s"
  shows "piggyback_fallback e p s = Some ((unpiggy_line e p s)\<lparr>net := net s @ [piggyback_flush e p s]\<rparr>)"
proof -
  have "pinv e L H (Some p) (s\<lparr>net := net s @ [piggyback_flush e p s]\<rparr>)" using inv by simp
  then obtain s1 where s1: "pset_remove_eviction (set_of e p) p 1 (s\<lparr>net := net s @ [piggyback_flush e p s]\<rparr>) = Some s1"
     "ClearPcache PC_piggyback p s1 = unpiggy_line e p (s\<lparr>net := net s @ [piggyback_flush e p s]\<rparr>)" and p: "p < nl e"
    by (rule unpiggy_eq)
  obtain v where v: "pcache_meta_to_kva (geom e) p = Some v" using meta_kva [OF p] by blast
  show ?thesis
    using s1 v by (simp add: piggyback_fallback_def meta_to_set [OF p] clflush_to_def ibapi_send_reply_def
        piggyback_flush_def Let_def unpiggy_net)
qed


subsection \<open>Filling a line\<close>

lemma made_pte:
  assumes env: "env_ok e" and p: "p < nl e"
  obtains v where "pcache_mk_pte (geom e) (supported_pte_mask e) p PAGE_SHARED_EXEC = Some v" "pte_present v"
    "pte_write v" "pte_to_pcache_meta (geom e) v = Some p" "\<not> pte_dirty v"
proof -
  let ?g = "geom e" and ?m = "supported_pte_mask e"
  have g: "geom_wf ?g" "line_size_shift (pconfig ?g) = PAGE_SHIFT" "unat (phys_start_metadata ?g) \<le> 2 ^ 46"
    and m: "PAGE_SHARED_EXEC AND ?m = PAGE_SHARED_EXEC"
    using env by (simp_all add: env_ok_def geom_mapped_def)
  have z: "PAGE_SHARED_EXEC AND PTE_PFN_MASK = 0" "bit PAGE_SHARED_EXEC 0" "bit PAGE_SHARED_EXEC 1" "\<not> bit PAGE_SHARED_EXEC 6"
    by code_simp+
  obtain a where a: "pcache_meta_to_pfn ?g p = Some a"
    using p by (simp add: pcache_meta_to_pfn_def pcache_meta_to_pa_def nl_def nr_lines_def)
  define v where "v = pfn_pte ?m a PAGE_SHARED_EXEC"
  have v: "pcache_mk_pte ?g ?m p PAGE_SHARED_EXEC = Some v" by (simp add: pcache_mk_pte_def a v_def)
  have "massage_pgprot ?m PAGE_SHARED_EXEC = PAGE_SHARED_EXEC" by (simp add: massage_pgprot_def m)
  then have "bit v 0" "bit v 1" "\<not> bit v 6" using z by (simp_all add: v_def pfn_pte_def bit_or_iff bit_push_bit_iff)
  then show ?thesis by (intro that [OF v]) (simp_all add: pte_of_line [OF g(1,2) v g(3) z(1)])
qed

text \<open>Giving an allocated line back, and mapping it at an entry that is not present.\<close>

lemma release_held:
  assumes inv: "pinv e L (insert p H) None s" and p: "p \<notin> H"
  shows "put_pcache e p s = Some (free_line e p s)" "pinv e L H None (free_line e p s)"
  using put_pcache_held [OF inv, of p] pinv_free_line [OF inv, of p] p by simp_all

lemma new_rmap_sel [simp]: "page_table (new_rmap e p ptep address mm proc caller u) = ptep"
  "owner_mm (new_rmap e p ptep address mm proc caller u) = mm" "owner_process (new_rmap e p ptep address mm proc caller u) = proc"
  by (simp_all add: new_rmap_def)

lemma map_fresh_line:
  fixes e mm address proc caller u v p
  defines "ptep \<equiv> pte_ptr e mm address"
  defines "r \<equiv> new_rmap e p ptep address mm proc caller u"
  assumes inv: "pinv e L (insert p H) None u" and p: "p \<notin> H" and proc: "thread_group_leader e proc"
    and nm: "\<not> (\<exists>q. maps_line e u ptep q)" and v: "pte_present v" "pte_to_pcache_meta (geom e) v = Some p"
  shows "pcache_add_rmap e p ptep address mm proc caller (pte_set ptep v u) = Some (0, map_line p r v u)"
    and "pinv e L H None (map_line p r v u)" and "rmap (meta (map_line p r v u) p) = [r]"
    and "maps_line e (map_line p r v u) ptep p"
proof -
  note D = pinvD [OF inv]
  have pn: "p < nl e" "p \<notin> L" using D(8,10) by auto
  have lp: "line_ok e L (insert p H) None u p" by (rule line_okD [OF D(3) pn(1)])
  have fresh: "rmap (meta u p) = []" "in_lru e u p" "\<not> rmap_used u p" "PC_locked \<notin> bits (meta u p)"
      "PC_reclaim \<notin> bits (meta u p)" "mapcount (meta u p) = 0" "refcount (meta u p) = 1"
    using lp pn by (auto simp: line_ok_def meta_ok_def Let_def split: if_splits)
  show "pcache_add_rmap e p ptep address mm proc caller (pte_set ptep v u) = Some (0, map_line p r v u)"
    using pcache_add_rmap_eq [OF D(1) pn(1) fresh(4,5) _ v(2) proc, of ptep mm address caller] fresh
    by (simp add: map_line_def Let_def ptep_def r_def)
  have "pinv e L (insert p H - {p}) None (set_ref p (mapcount (meta u p) + 1) (map_line p r v u))"
    by (rule pinv_map_line [OF inv pn(1) _ _ _ _ _ _ v fresh(2)])
       (use nm page_walkD(1) [OF D(1)] fresh(1) in \<open>simp_all add: r_def new_rmap_def ptep_def\<close>)
  then show "pinv e L H None (map_line p r v u)"
    using fresh p by (simp add: set_ref_same map_line_def Let_def)
  show "rmap (meta (map_line p r v u) p) = [r]" using fresh by (simp add: map_line_def Let_def)
  show "maps_line e (map_line p r v u) ptep p" using v by (simp add: map_line_def Let_def maps_line_def r_def new_rmap_def)
qed

text \<open>
  What other CPUs may do while this one waits for a page table lock: any number of complete
  operations, which keep the invariant, do not touch the lines this CPU has allocated and not
  yet mapped, and do not take its locks away.
\<close>

definition others_ok :: "penv \<Rightarrow> bool" where
  "others_ok e \<longleftrightarrow> (\<forall>L H B s. pinv e L H B s \<longrightarrow>
     pinv e L H B (others e s) \<and> ptl_held (others e s) = ptl_held s \<and>
     (\<forall>p \<in> H. line (others e s) p = line s p \<and> meta (others e s) p = meta s p))"

text \<open>
  The contract between \<open>common_do_fill_page\<close> and the function that produces the
  content: it is given an allocated line, which may still hold the dirty content of a victim,
  and it leaves no piggyback behind, whether it succeeds or not. \<open>filled\<close> is what it
  promises, on success and on failure.
\<close>

locale line_fill =
  fixes e :: penv and fill :: fill_func and pbo :: piggyback_options
    and filled :: "bool \<Rightarrow> u64 \<Rightarrow> u64 \<Rightarrow> nat \<Rightarrow> pstate \<Rightarrow> pstate \<Rightarrow> bool"
  assumes fill_ok: "pinv e L H B s \<Longrightarrow> p \<in> H \<Longrightarrow> B = None \<or> B = Some p \<and> pbo = ENABLE_PIGGYBACK \<Longrightarrow>
    \<exists>ret s'. fill address flags p s = Some (ret, s') \<and> pinv e L H None s' \<and> ptes s' = ptes s \<and>
      ptl_held s' = ptl_held s \<and> (\<forall>q. q \<noteq> p \<longrightarrow> meta s' q = meta s q) \<and> filled (ret = 0) address flags p s s'"
begin

lemma fill_cases:
  assumes "pinv e L H B s" "p \<in> H" "B = None \<or> B = Some p \<and> pbo = ENABLE_PIGGYBACK"
  obtains ret s' where "fill address flags p s = Some (ret, s')" "pinv e L H None s'" "ptes s' = ptes s"
    "ptl_held s' = ptl_held s" "\<And>q. q \<noteq> p \<Longrightarrow> meta s' q = meta s q" "filled (ret = 0) address flags p s s'"
  using fill_ok [OF assms, of address flags] by blast

lemma common_fill_cases:
  assumes inv: "pinv e L H None s" and oth: "others_ok e" and n: "0 < alloc_rounds e"
    and kd: "k = user_vaddr_to_pcache_set (geom e) address" and ptl: "victim_unlocked e k s"
    and lk: "pte_lockptr e mm address \<notin> ptl_held s" and orig: "\<not> pte_present orig_pte"
    and proc: "thread_group_leader e (group_leader (task e (current e)))"
  obtains
    (oom) s' where "common_do_fill_page e mm address orig_pte flags fill caller pbo s = Some (VM_FAULT_OOM, s')"
      "pinv e L H None s'" "ptl_held s' = ptl_held s" "free_head (pset s k) = []" "victim_of k s = None"
      "same_memory s s'" "meta s' = meta s"
  | (raced) p B s1 s' where "common_do_fill_page e mm address orig_pte flags fill caller pbo s = Some (0, s')"
      "pinv e L H None s'" "ptl_held s' = ptl_held s" "alloc_effect e pbo p B s s1" "pinv e L (insert p H) B s1"
      "ptes (others e s1) (pte_ptr e mm address) \<noteq> orig_pte" "ptes s' = ptes (others e s1)"
  | (failed) p B s1 u s' where "common_do_fill_page e mm address orig_pte flags fill caller pbo s = Some (VM_FAULT_SIGSEGV, s')"
      "pinv e L H None s'" "ptl_held s' = ptl_held s" "alloc_effect e pbo p B s s1" "pinv e L (insert p H) B s1"
      "filled False address flags p ((others e s1)\<lparr>ptl_held := insert (pte_lockptr e mm address) (ptl_held s)\<rparr>) u"
      "ptes s' = ptes (others e s1)" "line s' = line u" "net s' = net u" "rmap (meta s' p) = []"
      "\<And>q. q \<noteq> p \<Longrightarrow> meta s' q = meta (others e s1) q"
  | (filled) p B s1 u v s' where "common_do_fill_page e mm address orig_pte flags fill caller pbo s = Some (0, s')"
      "pinv e L H None s'" "ptl_held s' = ptl_held s" "alloc_effect e pbo p B s s1" "set_of e p = k"
      "B = None \<or> B = Some p \<and> pbo = ENABLE_PIGGYBACK"
      "filled True address flags p ((others e s1)\<lparr>ptl_held := insert (pte_lockptr e mm address) (ptl_held s)\<rparr>) u"
      "maps_line e s' (pte_ptr e mm address) p" "line s' = line u" "net s' = net u"
      "rmap (meta s' p) = [new_rmap e p (pte_ptr e mm address) address mm (group_leader (task e (current e))) caller u]"
      "ptes s' = (ptes (others e s1))(pte_ptr e mm address := v)" "\<not> pte_dirty v" "pinv e L (insert p H) B s1"
      "\<And>q. q \<noteq> p \<Longrightarrow> meta s' q = meta (others e s1) q"
proof -
  let ?c = "common_do_fill_page e mm address orig_pte flags fill caller pbo s"
  let ?l = "pte_lockptr e mm address" and ?ptep = "pte_ptr e mm address"
  let ?proc = "group_leader (task e (current e))"
  have env: "env_ok e" by (rule pinvD(1) [OF inv])
  show ?thesis
  proof (cases rule: pcache_alloc_cases [OF kd inv ptl n, of pbo, case_names got none])
    case (none s')
    then show ?thesis by (intro oom [of s']) (auto simp: common_do_fill_page_def same_memory_def)
  next
    case (got p B s1)
    have o: "pinv e L (insert p H) B (others e s1)" "ptl_held (others e s1) = ptl_held s"
      using oth got(6,8) unfolding others_ok_def alloc_effect_def by metis+
    define t where "t = (others e s1)\<lparr>ptl_held := insert ?l (ptl_held s)\<rparr>"
    have t: "pinv e L (insert p H) B t" "ptl_held t = insert ?l (ptl_held s)" "ptes t = ptes (others e s1)"
      using o by (simp_all add: t_def)
    have lock: "spin_lock_ptl ?l (others e s1) = Some t" using o(2) lk by (simp add: spin_lock_ptl_def t_def)
    have ul: "insert ?l (ptl_held s) - {?l} = ptl_held s" using lk by auto
    obtain v where v: "pcache_mk_pte (geom e) (supported_pte_mask e) p PAGE_SHARED_EXEC = Some v" "pte_present v"
       "pte_to_pcache_meta (geom e) v = Some p" "\<not> pte_dirty v" using made_pte [OF env got(2)] by metis
    show ?thesis
    proof (cases "ptes t ?ptep = orig_pte")
      case False
      have pgb: "PcacheBit PC_piggyback p t \<longleftrightarrow> B = Some p"
        using line_okD [OF pinvD(3) [OF t(1)] got(2)] by (simp add: line_ok_def PcacheBit_def)
      obtain w where w: "(if PcacheBit PC_piggyback p t then piggyback_fallback e p t else Some t) = Some w"
        "pinv e L (insert p H) None w" "ptes w = ptes t" "ptl_held w = ptl_held t"
      proof (cases "B = Some p")
        case True
        then show ?thesis using that piggyback_fallback_eq [of e L "insert p H" p t] pinv_unpiggy_line [of e L "insert p H" p t] t(1) pgb
          by (simp add: unpiggy_mem)
      next
        case False
        then show ?thesis using that t(1) pgb got(7) by simp
      qed
      note rel = release_held [OF w(2) got(4)]
      let ?s' = "spin_unlock_ptl ?l (free_line e p w)"
      have "?c = Some (0, ?s')"
        using False w(1) rel(1) by (simp add: common_do_fill_page_def got(1) v(1) lock)
      moreover have "pinv e L H None ?s'"
        using rel(2) by (simp add: spin_unlock_ptl_def)
      ultimately show ?thesis
        by (rule raced [OF _ _ _ got(8,6)]) (use False w t ul in \<open>simp_all add: spin_unlock_ptl_def free_line_def Let_def\<close>)
    next
      case True
      obtain ret u where u: "fill address flags p t = Some (ret, u)" "pinv e L (insert p H) None u" "ptes u = ptes t"
        "ptl_held u = ptl_held t" "\<And>q. q \<noteq> p \<Longrightarrow> meta u q = meta t q" and fd: "filled (ret = 0) address flags p t u"
        using fill_cases [OF t(1) insertI1 got(7)] by metis
      show ?thesis
      proof (cases "ret = 0")
        case False
        note rel = release_held [OF u(2) got(4)]
        let ?s' = "spin_unlock_ptl ?l (free_line e p u)"
        have "?c = Some (VM_FAULT_SIGSEGV, ?s')"
          using False True rel(1) by (simp add: common_do_fill_page_def got(1) v(1) lock u(1))
        moreover have "pinv e L H None ?s'"
          using rel(2) by (simp add: spin_unlock_ptl_def)
        moreover have "rmap (meta u p) = []" using line_okD [OF pinvD(3) [OF u(2)] got(2)] by (simp add: line_ok_def)
        ultimately show ?thesis using fd False unfolding t_def
          by (intro failed [where u = u and s' = ?s', OF _ _ _ got(8,6)]) (use u t ul in \<open>simp_all add: spin_unlock_ptl_def free_line_def Let_def t_def\<close>)
      next
        case ok: True
        have nm: "\<not> (\<exists>q. maps_line e u ?ptep q)" using orig True u(3) by (simp add: maps_line_def)
        let ?r = "new_rmap e p ?ptep address mm ?proc caller u"
        note mp = map_fresh_line [OF u(2) got(4) proc nm v(2,3), of caller]
        have "?c = Some (0, spin_unlock_ptl ?l (map_line p ?r v u))"
          using ok True mp(1) by (simp add: common_do_fill_page_def got(1) v(1) lock u(1))
        moreover have "pinv e L H None (spin_unlock_ptl ?l (map_line p ?r v u))"
          using mp(2) by (simp add: spin_unlock_ptl_def)
        ultimately show ?thesis
          by (rule filled [OF _ _ _ got(8,3,7) _ _ _ _ _ _ v(4) got(6)])
             (use fd ok u t ul mp(3,4) in \<open>simp_all add: t_def spin_unlock_ptl_def map_line_def Let_def maps_line_def\<close>)
      qed
    qed
  qed
qed

end


text \<open>Filling from the memory component: the messages that are sent, and what is left in the line.\<close>

definition fill_request :: "penv \<Rightarrow> u64 \<Rightarrow> u64 \<Rightarrow> nat \<Rightarrow> pstate \<Rightarrow> p2m_msg list" where
  "fill_request e address flags p s =
     (let dst = get_memory_node e (current e) address; b = pb (meta s p); miss = miss_msg e address flags in
      if PC_piggyback \<notin> bits (meta s p) then [P2M_MISS dst miss]
      else if pb_memory_nid b \<noteq> dst then [piggyback_flush e p s, P2M_MISS dst miss]
      else [P2M_MISS_FLUSH dst miss \<lparr>fl_pid = pb_tgid b, fl_user_va = pb_user_addr b, fl_pcacheline = line s p\<rparr>])"

definition remote_filled :: "penv \<Rightarrow> bool \<Rightarrow> u64 \<Rightarrow> u64 \<Rightarrow> nat \<Rightarrow> pstate \<Rightarrow> pstate \<Rightarrow> bool" where
  "remote_filled e ok address flags p s s' \<longleftrightarrow>
     net s' = net s @ fill_request e address flags p s \<and>
     (ok \<longleftrightarrow> int (unat (PCACHE_LINE_SIZE (pconfig (geom e)))) \<le> fst (reply e (net s'))) \<and>
     line s' = (line s)(p := snd (reply e (net s')))"

definition zero_filled :: "penv \<Rightarrow> bool \<Rightarrow> u64 \<Rightarrow> u64 \<Rightarrow> nat \<Rightarrow> pstate \<Rightarrow> pstate \<Rightarrow> bool" where
  "zero_filled e ok address flags p s s' \<longleftrightarrow> ok \<and> net s' = net s \<and>
     line s' = (line s)(p := replicate (unat (PCACHE_LINE_SIZE (pconfig (geom e)))) 0)"

lemma reply_status_0: "reply_status e len = 0 \<longleftrightarrow> int (unat (PCACHE_LINE_SIZE (pconfig (geom e)))) \<le> len"
  by (auto simp: reply_status_def EFAULT_def)

interpretation remote: line_fill e "pcache_do_fill_page_remote e" ENABLE_PIGGYBACK "remote_filled e" for e
proof (unfold_locales, goal_cases)
  case (1 L H B s p address flags)
  have p: "p < nl e" using pinvD(8) [OF 1(1)] 1(2) by auto
  obtain v where v: "pcache_meta_to_kva (geom e) p = Some v" using meta_kva [OF p] by blast
  have pgb: "PC_piggyback \<in> bits (meta s p) \<longleftrightarrow> B = Some p"
    using line_okD [OF pinvD(3) [OF 1(1)] p] by (simp add: line_ok_def)
  note defs = pcache_do_fill_page_remote_def remote_filled_def fill_request_def fetch_line_def ibapi_send_reply_def
    PcacheBit_def v meta_to_set [OF p] Let_def reply_status_0 split_def
  show ?case
  proof (cases "B = Some p")
    case False
    then show ?thesis using 1 pgb by (simp add: defs)
  next
    case True
    have inv: "pinv e L H (Some p) s" using 1(1) True by simp
    note un = pinv_unpiggy_line [OF inv]
    show ?thesis
    proof (cases "pb_memory_nid (pb (meta s p)) = get_memory_node e (current e) address")
      case False
      then show ?thesis using True pgb un by (simp add: defs piggyback_fallback_eq [OF inv] unpiggy_mem unpiggy_meta)
    next
      case same: True
      let ?m = "P2M_MISS_FLUSH (get_memory_node e (current e) address) (miss_msg e address flags)
        \<lparr>fl_pid = pb_tgid (pb (meta s p)), fl_user_va = pb_user_addr (pb (meta s p)), fl_pcacheline = line s p\<rparr>"
      let ?t = "s\<lparr>net := net s @ [?m], line := (line s)(p := snd (reply e (net s @ [?m])))\<rparr>"
      have t: "pinv e L H (Some p) ?t" using inv by simp
      obtain s1 where "pset_remove_eviction (set_of e p) p 1 ?t = Some s1" "ClearPcache PC_piggyback p s1 = unpiggy_line e p ?t"
        by (rule unpiggy_eq [OF t])
      then show ?thesis using same True pgb pinv_unpiggy_line [OF t] by (simp add: defs unpiggy_mem unpiggy_meta)
    qed
  qed
qed

interpretation zero: line_fill e "pcache_do_zerofill e" DISABLE_PIGGYBACK "zero_filled e" for e
proof (unfold_locales, goal_cases)
  case (1 L H B s p address flags)
  have p: "p < nl e" using pinvD(8) [OF 1(1)] 1(2) by auto
  obtain v where v: "pcache_meta_to_kva (geom e) p = Some v" using meta_kva [OF p] by blast
  show ?case using 1 by (simp add: pcache_do_zerofill_def submit_zerofill_notify_work_def v zero_filled_def)
qed

subsection \<open>Resolving a write protection fault\<close>

lemma alloc_keeps_maps:
  assumes inv: "pinv e L H B0 s" and a: "alloc_effect e pbo p B s s1" and m: "maps_line e s ptep q" and ne: "q \<noteq> p"
  shows "ptes s1 ptep = ptes s ptep" "maps_line e s1 ptep q" "meta s1 q = meta s q"
proof -
  show "ptes s1 ptep = ptes s ptep"
  proof (cases "ptes s1 = ptes s")
    case False
    then obtain r where r: "rmap (meta s p) = [r]" "ptes s1 = (ptes s)(page_table r := 0)" "in_lru e s p" "evictable s p"
      using a by (auto simp: alloc_effect_def)
    have "p < nl e"
      using list_member_set(2) [OF pinvD(2) [OF inv] set_of_less [OF pinvD(1) [OF inv]]] r(3) by (auto simp: in_lru_def)
    then have "rmap_ok e s p r" using line_okD [OF pinvD(3) [OF inv]] r(1) by (auto simp: line_ok_def meta_ok_def Let_def)
    then have "page_table r \<noteq> ptep" using m ne by (auto simp: rmap_ok_def maps_line_def)
    then show ?thesis using r(2) by simp
  qed simp
  then show "maps_line e s1 ptep q" using m by (simp add: maps_line_def)
  show "meta s1 q = meta s q" using a ne by (simp add: alloc_effect_def)
qed

lemma pcache_remove_rmap_eq:
  assumes lk: "PC_locked \<in> bits (meta s p)" and r: "r \<in> set (rmap (meta s p))" "page_table r = ptep" "owner_mm r = mm"
      "rm_address r = address AND PAGE_MASK" "\<not> rm_reserved r"
    and un: "\<And>r'. r' \<in> set (rmap (meta s p)) \<Longrightarrow> page_table r' = ptep \<Longrightarrow> r' = r"
    and us: "\<And>i. rm_slot r = Some i \<Longrightarrow> rmap_used s i"
  shows "pcache_remove_rmap p ptep address mm s = Some ((unmap_line p r s)\<lparr>ptes := ptes s\<rparr>)"
proof -
  have "pcache_remove_one_rmap p r s = Some ((unmap_line p r s)\<lparr>ptes := ptes s\<rparr>)"
    using r(5) us by (auto simp: pcache_remove_one_rmap_def pc_defs unmap_line_def Let_def free_pcache_rmap_def split: option.splits)
  then have one: "pcache_remove_rmap_one p ptep mm (address AND PAGE_MASK) r False s =
      Some (PCACHE_RMAP_SUCCEED, True, (unmap_line p r s)\<lparr>ptes := ptes s\<rparr>)"
    using r by (simp add: pcache_remove_rmap_one_def matched_rmap_def)
  have "rmap_walk_from (pcache_remove_rmap_one p ptep mm (address AND PAGE_MASK)) no_done (rmap (meta s p))
      PCACHE_RMAP_AGAIN False s = Some (PCACHE_RMAP_SUCCEED, True, (unmap_line p r s)\<lparr>ptes := ptes s\<rparr>)"
    by (rule rmap_walk_first [where P = "\<lambda>r. matched_rmap r ptep mm (address AND PAGE_MASK)" and r = r])
       (use r(1-4) one in \<open>auto simp: pcache_remove_rmap_one_def matched_rmap_def intro: un\<close>)
  then show ?thesis using lk by (simp add: pcache_remove_rmap_def rmap_walk_def PcacheBit_def)
qed



lemma flags_frame [simp]:
  "pinv e L H B (s\<lparr>line := l, tlb_flushes := t\<rparr>) = pinv e L H B s"
  by (metis pinv_frame(1,3))

text \<open>Mapping one line and unmapping another from the same entry commute, but for the entry.\<close>

lemma map_unmap_commute:
  assumes "old \<noteq> new" "page_table r0 = page_table r" "rm_slot r0 = None \<or> rm_slot r0 = Some old" "rm_slot r = None \<or> rm_slot r = Some new"
  shows "set_ref old n ((unmap_line old r0 (map_line new r v u))\<lparr>ptes := ptes (map_line new r v u)\<rparr>) =
    map_line new r v (set_ref old n (unmap_line old r0 u))"
  using assms
  by (intro pstate.equality)
     (auto simp: set_ref_def unmap_line_def map_line_def Let_def fun_upd_twist)

text \<open>
  Switching an entry from one line, which keeps other mappings, to a fresh one: set the entry,
  add the new reverse mapping, remove the old one, drop its reference.
\<close>

lemma switch_line:
  assumes inv: "pinv e L (insert new H) None u" and nH: "new \<notin> H" and oL: "old \<in> L" and m: "maps_line e u ptep old"
    and ptep: "ptep = pte_ptr e mm address" and more: "mapcount (meta u old) \<noteq> 1" and proc: "thread_group_leader e proc"
    and v: "pte_present v" "pte_to_pcache_meta (geom e) v = Some new"
  obtains M N s' r0 where "pcache_add_rmap e new ptep address mm proc caller (pte_set ptep v u) = Some (0, M)"
    "pcache_remove_rmap old ptep address mm M = Some N" "put_pcache e old N = Some s'" "pinv e L H None s'"
    "maps_line e s' ptep new" "ptes s' = (ptes u)(ptep := v)" "line s' = line u" "ptl_held s' = ptl_held u"
    "length (rmap (meta u old)) = Suc (length (rmap (meta s' old)))" "net s' = net u"
    "rmap (meta s' new) = [new_rmap e new ptep address mm proc caller u]" "rmap (meta s' old) = remove1 r0 (rmap (meta u old))"
    "\<And>q. q \<noteq> new \<Longrightarrow> q \<noteq> old \<Longrightarrow> meta s' q = meta u q"
proof -
  have env: "env_ok e" and new: "new < nl e" and nL: "new \<notin> L" using pinvD(1,8,10) [OF inv] by auto
  have ne: "old \<noteq> new" using oL nL by blast
  have old: "old < nl e" using frame_in_line(1) [OF env] m unfolding maps_line_def by blast
  obtain r0 where r0: "r0 \<in> set (rmap (meta u old))" "rmap_ok e u old r0" "page_table r0 = ptep" "owner_mm r0 = mm"
      "rm_address r0 = address AND PAGE_MASK"
    and un: "\<And>r'. r' \<in> set (rmap (meta u old)) \<Longrightarrow> page_table r' = ptep \<Longrightarrow> r' = r0"
    by (rule rmap_of_pte [OF inv m ptep]) blast
  have lo: "line_ok e L (insert new H) None u old" by (rule line_okD [OF pinvD(3) [OF inv] old])
  then have mo: "meta_ok e u old" and ref: "refcount (meta u old) = mapcount (meta u old)" and lk: "PC_locked \<in> bits (meta u old)"
    using r0(1) oL by (auto simp: line_ok_def split: if_splits)
  have mc: "mapcount (meta u old) = int (length (rmap (meta u old)))" using mo by (simp add: meta_ok_def Let_def)
  have len: "1 < length (rmap (meta u old))" using mc more length_pos_if_in_set [OF r0(1)] by linarith
  define w where "w = set_ref old (refcount (meta u old) - 1) (unmap_line old r0 u)"
  have w: "pinv e L (insert new H) None w" unfolding w_def by (rule pinv_unmap_more [OF inv old r0(1) len])
  have nm: "\<not> (\<exists>q. maps_line e w (pte_ptr e mm address) q)"
    using r0(3) ptep by (simp add: maps_line_def w_def set_ref_def unmap_line_def Let_def)
  note mp = map_fresh_line [OF w nH proc nm v, of caller]
  let ?r = "new_rmap e new ptep address mm proc caller w"
  have ln: "line_ok e L (insert new H) None u new" by (rule line_okD [OF pinvD(3) [OF inv] new])
  have fresh: "rmap (meta u new) = []" "\<not> rmap_used u new" "PC_locked \<notin> bits (meta u new)" "PC_reclaim \<notin> bits (meta u new)"
    using ln nL by (auto simp: line_ok_def meta_ok_def Let_def split: if_splits)
  have slot: "rm_slot r0 = None \<or> rm_slot r0 = Some old" using r0(2) by (simp add: rmap_ok_def)
  have us: "\<And>i. rm_slot r0 = Some i \<Longrightarrow> rmap_used u i" using rmap_slot_used [OF mo r0(1)] .
  have rw: "new_rmap e new ptep address mm proc caller u = ?r"
    using slot ne by (auto simp: new_rmap_def w_def set_ref_def unmap_line_def Let_def)
  let ?M = "map_line new ?r v u"
  have add: "pcache_add_rmap e new ptep address mm proc caller (pte_set ptep v u) = Some (0, ?M)"
    using pcache_add_rmap_eq [OF env new fresh(3,4) ptep v(2) proc, of caller] fresh rw by (simp add: map_line_def Let_def)
  have mM: "meta ?M old = meta u old" using ne by (simp add: map_line_def Let_def)
  have rem: "pcache_remove_rmap old ptep address mm ?M = Some ((unmap_line old r0 ?M)\<lparr>ptes := ptes ?M\<rparr>)"
  proof (rule pcache_remove_rmap_eq [OF _ _ r0(3-5)])
    show "r' = r0" if "r' \<in> set (rmap (meta ?M old))" "page_table r' = ptep" for r' using that un unfolding mM by blast
    show "rmap_used ?M i" if "rm_slot r0 = Some i" for i using us [OF that] by (simp add: map_line_def Let_def new_rmap_def)
  qed (use lk r0(1,2) in \<open>simp_all add: mM rmap_ok_def\<close>)
  let ?N = "(unmap_line old r0 ?M)\<lparr>ptes := ptes ?M\<rparr>"
  have rN: "refcount (meta ?N old) = refcount (meta u old)" by (simp add: unmap_line_def Let_def mM)
  have put: "put_pcache e old ?N = Some (map_line new ?r v w)"
  proof -
    have "refcount (meta ?N old) \<noteq> 0" "refcount (meta ?N old) \<noteq> 1" unfolding rN ref mc using len by linarith+
    then have "put_pcache e old ?N = Some (set_ref old (refcount (meta u old) - 1) ?N)"
      unfolding set_ref_def rN [symmetric] by (rule put_pcache_more)
    moreover have "set_ref old (refcount (meta u old) - 1) ?N = map_line new ?r v w"
      unfolding w_def by (rule map_unmap_commute [OF ne _ slot]) (use r0(3) in \<open>auto simp: new_rmap_def\<close>)
    ultimately show ?thesis by simp
  qed
  from add rem put mp(2) [folded ptep] show ?thesis
    by (rule that [where ?r0.0 = r0]) (use mp(3,4) ne len r0 rw in \<open>simp_all add: ptep [symmetric] map_line_def w_def set_ref_def unmap_line_def
       Let_def new_rmap_def length_remove1\<close>)
qed

lemma wp_copy_cases:
  assumes inv: "pinv e L H None s" and oL: "old \<in> L" and m: "maps_line e s ptep old"
    and ptep: "ptep = pte_ptr e mm address" and mm: "mm = task_mm (task e (current e))"
    and more: "mapcount (meta s old) \<noteq> 1"
    and n: "0 < alloc_rounds e" and kd: "k = user_vaddr_to_pcache_set (geom e) address" and ptl: "victim_unlocked e k s"
    and proc: "thread_group_leader e (group_leader (task e (current e)))"
  obtains
    (oom) s' where "wp_copy e mm address ptep old s = Some (VM_FAULT_OOM, s')" "pinv e L H None s'" "ptl_held s' = ptl_held s"
      "ptes s' = ptes s" "meta s' = meta s" "line s' = line s" "net s' = net s" "free_head (pset s k) = []" "victim_of k s = None"
  | (copied) new s1 v s' where "wp_copy e mm address ptep old s = Some (0, s')" "pinv e L H None s'" "ptl_held s' = ptl_held s"
      "maps_line e s' ptep new" "new \<noteq> old" "new < nl e" "set_of e new = k" "pte_write (ptes s' ptep)" "pte_dirty (ptes s' ptep)"
      "line s' = (line s)(new := line s old)" "length (rmap (meta s old)) = Suc (length (rmap (meta s' old)))"
      "alloc_effect e DISABLE_PIGGYBACK new None s s1" "ptes s' = (ptes s1)(ptep := v)" "net s' = net s1"
      "\<And>r. r \<in> set (rmap (meta s' new)) \<Longrightarrow> owner_mm r = mm \<and> owner_process r = group_leader (task e (current e))"
      "\<And>q. q \<noteq> new \<Longrightarrow> set (rmap (meta s' q)) \<subseteq> set (rmap (meta s q))"
proof -
  let ?t = "task e (current e)"
  let ?proc = "group_leader ?t"
  have env: "env_ok e" by (rule pinvD(1) [OF inv])
  show ?thesis
  proof (cases rule: pcache_alloc_cases [OF kd inv ptl n, of DISABLE_PIGGYBACK, case_names got none])
    case (none s')
    then show ?thesis by (intro oom [of s']) (auto simp: wp_copy_def same_memory_def Let_def)
  next
    case (got new B s1)
    have ne: "old \<noteq> new" using oL got(5) by blast
    have B: "B = None" using got(7) by simp
    have s1: "pinv e L (insert new H) None s1" "line s1 = line s" "ptl_held s1 = ptl_held s" using got(6,8) B by (simp_all add: alloc_effect_def)
    note km = alloc_keeps_maps [OF inv got(8) m ne]
    have old: "old < nl e" using frame_in_line(1) [OF env] m unfolding maps_line_def by blast
    obtain kva kva' where kva: "pcache_meta_to_kva (geom e) new = Some kva" "pcache_meta_to_kva (geom e) old = Some kva'"
      using meta_kva [OF got(2)] meta_kva [OF old] by blast
    obtain v0 where v0: "pcache_mk_pte (geom e) (supported_pte_mask e) new PAGE_SHARED_EXEC = Some v0" "pte_present v0"
       "pte_to_pcache_meta (geom e) v0 = Some new" using made_pte [OF env got(2)] by metis
    define v where "v = pte_mkwrite (pte_mkdirty v0)"
    have v: "pte_present v" "pte_to_pcache_meta (geom e) v = Some new" "bit v 1" "bit v 6"
      using v0(2) pte_same_frame [of v v0 "geom e"] v0(3) by (auto simp: v_def)
    define u where "u = s1\<lparr>line := (line s1)(new := line s1 old),
        tlb_flushes := tlb_flushes s1 @ [(mm, address, address + PAGE_SIZE)]\<rparr>"
    have u: "pinv e L (insert new H) None u" "line u = (line s)(new := line s old)" "ptl_held u = ptl_held s"
       "meta u old = meta s old" "ptes u ptep = ptes s ptep" "maps_line e u ptep old" "ptes u = ptes s1" "net u = net s1"
       "\<And>q. q \<noteq> new \<Longrightarrow> meta u q = meta s q"
      using s1 km got(8) by (simp_all add: u_def maps_line_def alloc_effect_def)
    have more': "mapcount (meta u old) \<noteq> 1" using more u(4) by simp
    obtain M N s' r0 where sw: "pcache_add_rmap e new ptep address mm ?proc RMAP_COW (pte_set ptep v u) = Some (0, M)"
        "pcache_remove_rmap old ptep address mm M = Some N" "put_pcache e old N = Some s'" "pinv e L H None s'"
        "maps_line e s' ptep new" "ptes s' = (ptes u)(ptep := v)" "line s' = line u" "ptl_held s' = ptl_held u"
        "length (rmap (meta u old)) = Suc (length (rmap (meta s' old)))" "net s' = net u"
        "rmap (meta s' new) = [new_rmap e new ptep address mm ?proc RMAP_COW u]" "rmap (meta s' old) = remove1 r0 (rmap (meta u old))"
        "\<And>q. q \<noteq> new \<Longrightarrow> q \<noteq> old \<Longrightarrow> meta s' q = meta u q"
      by (rule switch_line [OF u(1) got(4) oL u(6) ptep more' proc v(1,2), of RMAP_COW]) blast
    have st: "flush_tlb_mm_range mm address (address + PAGE_SIZE) (pte_set ptep v (s1\<lparr>line := (line s1)(new := line s1 old)\<rparr>)) = pte_set ptep v u"
      by (rule pstate.equality) (simp_all add: flush_tlb_mm_range_def pte_set_def u_def)
    have "wp_copy e mm address ptep old s = Some (0, s')"
      using sw by (simp add: wp_copy_def got(1) cow_pcache_def kva v0(1) Let_def v_def [symmetric] mm [symmetric] st del: PAGE_SIZE_eq)
    moreover have "set (rmap (meta s' q)) \<subseteq> set (rmap (meta s q))" if "q \<noteq> new" for q
    proof (cases "q = old")
      case True
      then show ?thesis using sw(12) u(4) set_remove1_subset [of r0 "rmap (meta u old)"] by simp
    next
      case False
      then show ?thesis using sw(13) u(9) that by simp
    qed
    ultimately show ?thesis using got(8) unfolding B
      by (intro copied [of s' new s1 v]) (use sw(1-11) ne got(2,3) v u in \<open>simp_all add: new_rmap_def\<close>)
  qed
qed


text \<open>The start of \<open>pcache_do_wp_page\<close>: the line is locked, and its map count decides.\<close>

lemma wp_page_start:
  assumes inv: "pinv e L H None s" and oL: "old \<notin> L" and m: "maps_line e s ptep old" and ptep: "ptep = pte_ptr e mm address"
  shows "pinv e (insert old L) H None (SetPcache PC_locked old s)" "old < nl e"
    "pcache_do_wp_page e mm address ptep l (ptes s ptep) s =
     (if mapcount (meta s old) = 1 then do {
        t \<leftarrow> unlock_pcache old (pte_set ptep (pte_mkwrite (pte_mkdirty (pte_mkyoung (ptes s ptep)))) (SetPcache PC_locked old s));
        Some (0, spin_unlock_ptl l t) }
      else do {
        (ret, t) \<leftarrow> wp_copy e mm address ptep old (SetPcache PC_locked old s);
        t \<leftarrow> unlock_pcache old t;
        Some (ret, spin_unlock_ptl l t) })"
proof -
  note D = pinvD [OF inv]
  obtain r where r: "r \<in> set (rmap (meta s old))" and old: "old < nl e" using rmap_of_pte [OF inv m ptep] by metis
  have lo: "line_ok e L H None s old" by (rule line_okD [OF D(3) old])
  have oH: "old \<notin> H" and bits: "bits (meta s old) = {PC_valid}" and mc: "mapcount (meta s old) = int (length (rmap (meta s old)))"
    using lo r oL by (auto simp: line_ok_def meta_ok_def Let_def)
  have lru: "in_lru e s old" using lo r in_lists [OF D(2,1) old] by (auto simp: line_ok_def)
  let ?sl = "SetPcache PC_locked old s"
  show "pinv e (insert old L) H None ?sl" by (rule pinv_lock [OF inv oH lru])
  show "old < nl e" by (rule old)
  have pm: "pte_to_pcache_meta (geom e) (ptes s ptep) = Some old" using m by (simp add: maps_line_def)
  have lock: "lock_pcache_pte_held e old ptep (ptes s ptep) l s = Some (True, ?sl)"
    using bits by (simp add: lock_pcache_pte_held_def trylock_pcache_def PcacheBit_def)
  have mc': "mapcount (meta ?sl old) = mapcount (meta s old)" by (simp add: pc_defs)
  show "pcache_do_wp_page e mm address ptep l (ptes s ptep) s =
     (if mapcount (meta s old) = 1 then do {
        t \<leftarrow> unlock_pcache old (pte_set ptep (pte_mkwrite (pte_mkdirty (pte_mkyoung (ptes s ptep)))) ?sl);
        Some (0, spin_unlock_ptl l t) }
      else do {
        (ret, t) \<leftarrow> wp_copy e mm address ptep old ?sl;
        t \<leftarrow> unlock_pcache old t;
        Some (ret, spin_unlock_ptl l t) })"
    using bits mc r by (cases "rmap (meta s old)") (simp_all add: pcache_do_wp_page_def pm lock PcacheBit_def pcache_mapped_def pcache_mapcount_def mc')
qed

lemma pcache_do_wp_page_cases:
  assumes inv: "pinv e L H None s" and oL: "old \<notin> L" and m: "maps_line e s ptep old"
    and ptep: "ptep = pte_ptr e mm address" and mm: "mm = task_mm (task e (current e))"
    and n: "0 < alloc_rounds e" and kd: "k = user_vaddr_to_pcache_set (geom e) address"
    and ptl: "mapcount (meta s old) \<noteq> 1 \<Longrightarrow> victim_unlocked e k (SetPcache PC_locked old s)"
    and proc: "thread_group_leader e (group_leader (task e (current e)))"
  obtains
    (reused) s' where "pcache_do_wp_page e mm address ptep l (ptes s ptep) s = Some (0, s')" "pinv e L H None s'"
      "ptl_held s' = ptl_held s - {l}" "mapcount (meta s old) = 1" "line s' = line s" "net s' = net s"
      "\<And>q. rmap (meta s' q) = rmap (meta s q)"
      "ptes s' = (ptes s)(ptep := pte_mkwrite (pte_mkdirty (pte_mkyoung (ptes s ptep))))"
  | (oom) s' where "pcache_do_wp_page e mm address ptep l (ptes s ptep) s = Some (VM_FAULT_OOM, s')" "pinv e L H None s'"
      "ptl_held s' = ptl_held s - {l}" "ptes s' = ptes s" "line s' = line s" "net s' = net s" "\<And>q. rmap (meta s' q) = rmap (meta s q)"
      "free_head (pset s k) = []" "victim_of k (SetPcache PC_locked old s) = None" "mapcount (meta s old) \<noteq> 1"
  | (copied) new s1 v s' where "pcache_do_wp_page e mm address ptep l (ptes s ptep) s = Some (0, s')" "pinv e L H None s'"
      "ptl_held s' = ptl_held s - {l}" "mapcount (meta s old) \<noteq> 1"
      "maps_line e s' ptep new" "new \<noteq> old" "set_of e new = k" "pte_write (ptes s' ptep)" "pte_dirty (ptes s' ptep)"
      "line s' = (line s)(new := line s old)" "length (rmap (meta s old)) = Suc (length (rmap (meta s' old)))"
      "alloc_effect e DISABLE_PIGGYBACK new None (SetPcache PC_locked old s) s1" "ptes s' = (ptes s1)(ptep := v)" "net s' = net s1"
      "\<And>r. r \<in> set (rmap (meta s' new)) \<Longrightarrow> owner_mm r = mm \<and> owner_process r = group_leader (task e (current e))"
      "\<And>q. q \<noteq> new \<Longrightarrow> set (rmap (meta s' q)) \<subseteq> set (rmap (meta s q))"
proof -
  let ?sl = "SetPcache PC_locked old s"
  note sl = wp_page_start(1) [OF inv oL m ptep] and old = wp_page_start(2) [OF inv oL m ptep]
    and start = wp_page_start(3) [OF inv oL m ptep, of l]
  have f: "ptes ?sl = ptes s" "line ?sl = line s" "ptl_held ?sl = ptl_held s" "mapcount (meta ?sl old) = mapcount (meta s old)"
      "rmap (meta ?sl q) = rmap (meta s q)" "net ?sl = net s" "pset ?sl = pset s" for q by (simp_all add: pc_defs)
  have un: "unlock_pcache old u = Some (ClearPcache PC_locked old u)" "pinv e L H None (ClearPcache PC_locked old u)"
    if "pinv e (insert old L) H None u" for u using pinv_unlock [OF that, of old] old oL by simp_all
  show ?thesis
  proof (cases "mapcount (meta s old) = 1")
    case True
    let ?v = "pte_mkwrite (pte_mkdirty (pte_mkyoung (ptes s ptep)))"
    have "pinv e (insert old L) H None (?sl\<lparr>ptes := (ptes ?sl)(ptep := ?v)\<rparr>)"
      by (rule pinv_pte_flags [OF sl]) (simp_all add: f)
    note u = un [OF this [unfolded f(1), folded pte_set_def [of ptep ?v ?sl, unfolded f(1)]]]
    show ?thesis
      by (rule reused [of "spin_unlock_ptl l (ClearPcache PC_locked old (pte_set ptep ?v ?sl))"]) (use u True in \<open>simp_all add: start spin_unlock_ptl_def pte_set_def ClearPcache_def upd_meta_def f\<close>)
  next
    case False
    have m': "maps_line e ?sl ptep old" using m by (simp add: maps_line_def f)
    have mc': "mapcount (meta ?sl old) \<noteq> 1" using False f by simp
    show ?thesis
    proof (cases rule: wp_copy_cases [OF sl insertI1 m' ptep mm mc' n kd ptl [OF False] proc, case_names none got])
      case (none s')
      show ?thesis by (rule oom [of "spin_unlock_ptl l (ClearPcache PC_locked old s')"])
        (use none un [OF none(2)] False f in \<open>simp_all add: start spin_unlock_ptl_def ClearPcache_def upd_meta_def\<close>)
    next
      case (got new s1 v s')
      show ?thesis by (rule copied [of "spin_unlock_ptl l (ClearPcache PC_locked old s')" new s1 v])
        (use got un [OF got(2)] False f in \<open>simp_all add: start spin_unlock_ptl_def ClearPcache_def upd_meta_def maps_line_def\<close>)
    qed
  qed
qed


text \<open>
  The copy allocates with the page table lock of the fault held. If the victim of the
  allocation is mapped through the same lock, the handler waits for itself.
\<close>

lemma pcache_do_wp_page_deadlock:
  assumes inv: "pinv e L H None s" and oL: "old \<notin> L" and m: "maps_line e s ptep old" and ptep: "ptep = pte_ptr e mm address"
    and mc: "mapcount (meta s old) \<noteq> 1" and kd: "k = user_vaddr_to_pcache_set (geom e) address"
    and ptl: "\<not> victim_unlocked e k (SetPcache PC_locked old s)"
  shows "pcache_do_wp_page e mm address ptep l (ptes s ptep) s = None"
  using wp_page_start(3) [OF inv oL m ptep, of l] pcache_alloc_deadlock [OF kd wp_page_start(1) [OF inv oL m ptep] ptl] mc
  by (simp add: wp_copy_def)

end
