(* ===== verification/Pcache_Sweep.thy ===== *)
theory Pcache_Sweep
  imports Pcache_Fault
begin

section \<open>Write protection, reference bits and the sweep\<close>

text \<open>
  Facts about the walks of \<open>rmap.c\<close> that change flags of page table entries only, and about
  the sweep thread of \<open>evict_lru.c\<close> built on them: it ages entries and reorders the LRU
  list, and nothing else.
\<close>

subsection \<open>Walks that only change flags\<close>

text \<open>Two page tables whose entries differ in flags other than the presence bits only.\<close>

definition same_frames :: "(nat \<Rightarrow> pte) \<Rightarrow> (nat \<Rightarrow> pte) \<Rightarrow> bool" where
  "same_frames f g \<longleftrightarrow> (\<forall>x. pte_present (g x) = pte_present (f x) \<and> pte_pfn (g x) = pte_pfn (f x))"

lemma same_frames_refl [simp]: "same_frames f f"
  by (simp add: same_frames_def)

lemma same_frames_trans: "same_frames f g \<Longrightarrow> same_frames g h \<Longrightarrow> same_frames f h"
  by (simp add: same_frames_def)

lemma same_frames_upd:
  assumes "pte_present v = pte_present (f x)" "pte_pfn v = pte_pfn (f x)"
  shows "same_frames f (f(x := v))"
  using assms unfolding same_frames_def by simp

lemma pinv_same_frames:
  assumes inv: "pinv e L H B s" and v: "same_frames (ptes s) f"
  shows "pinv e L H B (s\<lparr>ptes := f\<rparr>)"
proof -
  note D = pinvD [OF inv]
  have "pte_to_pcache_meta (geom e) (f x) = pte_to_pcache_meta (geom e) (ptes s x)" for x
    using v unfolding same_frames_def by (intro pte_same_frame) blast
  then have m: "maps_line e (s\<lparr>ptes := f\<rparr>) x q = maps_line e s x q" for x q
    using v by (simp add: maps_line_def same_frames_def)
  then have "rmap_ok e (s\<lparr>ptes := f\<rparr>) = rmap_ok e s" by (simp add: rmap_ok_def fun_eq_iff)
  then have "line_ok e L H B (s\<lparr>ptes := f\<rparr>) = line_ok e L H B s"
    by (simp add: line_ok_def meta_ok_def in_lru_def in_free_def fun_eq_iff Let_def)
  then show ?thesis
    using D m by (simp add: pinv_def lines_ok_def sets_ok_def pset_wf_def evicts_ok_def ptes_ok_def)
qed

text \<open>The reverse mappings of a list lead to entries of line \<open>p\<close>.\<close>

definition leads_to :: "penv \<Rightarrow> (nat \<Rightarrow> pte) \<Rightarrow> nat \<Rightarrow> pcache_rmap list \<Rightarrow> bool" where
  "leads_to e f p rs \<longleftrightarrow> (\<forall>r \<in> set rs. pte_ptr e (owner_mm r) (rm_address r) = page_table r \<and>
     pcache_meta_to_pfn (geom e) p = Some (pte_pfn (f (page_table r))))"

lemma leads_to_frames: "leads_to e f p rs \<Longrightarrow> same_frames f g \<Longrightarrow> leads_to e g p rs"
  by (simp add: leads_to_def same_frames_def)

lemma leads_to_Cons [simp]: "leads_to e f p []" "leads_to e f p (r # rs) \<longleftrightarrow>
   pte_ptr e (owner_mm r) (rm_address r) = page_table r \<and>
     pcache_meta_to_pfn (geom e) p = Some (pte_pfn (f (page_table r))) \<and> leads_to e f p rs"
  by (auto simp: leads_to_def)

lemma pinv_leads_to:
  assumes inv: "pinv e L H B s" and p: "p < nl e"
  shows "leads_to e (ptes s) p (rmap (meta s p))"
  unfolding leads_to_def
proof
  fix r assume "r \<in> set (rmap (meta s p))"
  then have "rmap_ok e s p r" using line_okD [OF pinvD(3) [OF inv] p] by (auto simp: line_ok_def meta_ok_def Let_def)
  then show "pte_ptr e (owner_mm r) (rm_address r) = page_table r \<and>
     pcache_meta_to_pfn (geom e) p = Some (pte_pfn (ptes s (page_table r)))"
    using frame_in_line(2) [OF pinvD(1) [OF inv]] unfolding rmap_ok_def maps_line_def by blast
qed

text \<open>Write protection: every entry of the line loses the write and the dirty bit.\<close>

definition wp_entry :: "pte \<Rightarrow> pte" where
  "wp_entry v = (if pte_write v then pte_mkclean (pte_wrprotect v) else v)"

lemma wp_entry_frame [simp]: "pte_pfn (wp_entry v) = pte_pfn v" "pte_present (wp_entry v) = pte_present v"
    "wp_entry (wp_entry v) = wp_entry v" "\<not> pte_write (wp_entry v)"
  by (simp_all add: wp_entry_def)

lemma wp_same_frames: "same_frames f (f(x := wp_entry (f x)))"
  by (rule same_frames_upd) (simp_all add: wp_entry_def)

lemma pcache_wrprotect_one_eq:
  assumes "leads_to e (ptes s) p [r]" "pte_lockptr e (owner_mm r) (rm_address r) \<notin> ptl_held s"
  obtains n fl where "pcache_wrprotect_one e p r a s =
    Some (PCACHE_RMAP_AGAIN, n, s\<lparr>ptes := (ptes s)(page_table r := wp_entry (ptes s (page_table r))), tlb_flushes := fl\<rparr>)"
proof -
  let ?l = "pte_lockptr e (owner_mm r) (rm_address r)"
  have lk: "insert ?l (ptl_held s) - {?l} = ptl_held s" using assms(2) by auto
  show ?thesis
  proof (cases "pte_write (ptes s (page_table r))")
    case False
    have "pcache_wrprotect_one e p r a s = Some (PCACHE_RMAP_AGAIN, a, s)"
      using False assms lk by (simp add: pcache_wrprotect_one_def rmap_get_pte_locked_def pc_defs)
    then show ?thesis using that [of a "tlb_flushes s"] False by (simp add: wp_entry_def fun_upd_idem)
  next
    case True
    show ?thesis
      by (rule that [of "a + 1" "tlb_flushes s @ (if pte_present (ptes s (page_table r))
            then [(owner_mm r, rm_address r, rm_address r + PAGE_SIZE - 1)] else [])"]) (use True assms lk in \<open>simp add: pcache_wrprotect_one_def rmap_get_pte_locked_def pc_defs wp_entry_def Let_def\<close>)
  qed
qed

definition wp_entries :: "pcache_rmap list \<Rightarrow> (nat \<Rightarrow> pte) \<Rightarrow> nat \<Rightarrow> pte" where
  "wp_entries rs f = (\<lambda>x. if x \<in> page_table ` set rs then wp_entry (f x) else f x)"

lemma wp_entries_simps [simp]:
  "wp_entries [] f = f"
  "wp_entries rs (f(page_table r := wp_entry (f (page_table r)))) = wp_entries (r # rs) f"
  by (auto simp: wp_entries_def fun_eq_iff)

lemma pcache_wrprotect_walk:
  assumes "leads_to e (ptes s) p rs" "\<forall>r \<in> set rs. pte_lockptr e (owner_mm r) (rm_address r) \<notin> ptl_held s"
  shows "\<exists>ret' n fl. rmap_walk_from (pcache_wrprotect_one e p) no_done rs ret a s =
    Some (ret', n, s\<lparr>ptes := wp_entries rs (ptes s), tlb_flushes := fl\<rparr>)"
  using assms
proof (induction rs arbitrary: ret a s)
  case Nil
  have "rmap_walk_from (pcache_wrprotect_one e p) no_done [] ret a s =
    Some (ret, a, s\<lparr>ptes := wp_entries [] (ptes s), tlb_flushes := tlb_flushes s\<rparr>)" by simp
  then show ?case by blast
next
  case (Cons r rs)
  let ?f = "(ptes s)(page_table r := wp_entry (ptes s (page_table r)))"
  have l1: "leads_to e (ptes s) p [r]" using Cons.prems(1) by simp
  have lk: "pte_lockptr e (owner_mm r) (rm_address r) \<notin> ptl_held s" using Cons.prems(2) by simp
  obtain n fl where one: "pcache_wrprotect_one e p r a s = Some (PCACHE_RMAP_AGAIN, n, s\<lparr>ptes := ?f, tlb_flushes := fl\<rparr>)"
    by (rule pcache_wrprotect_one_eq [OF l1 lk])
  define t where "t = s\<lparr>ptes := ?f, tlb_flushes := fl\<rparr>"
  have l: "leads_to e (ptes t) p rs"
    using leads_to_frames [OF _ wp_same_frames [of "ptes s" "page_table r"]] Cons.prems(1) by (simp add: t_def)
  have "\<forall>r \<in> set rs. pte_lockptr e (owner_mm r) (rm_address r) \<notin> ptl_held t" using Cons.prems(2) by (simp add: t_def)
  from Cons.IH [OF l this, of PCACHE_RMAP_AGAIN n]
  obtain ret' n' fl' where "rmap_walk_from (pcache_wrprotect_one e p) no_done rs PCACHE_RMAP_AGAIN n t =
      Some (ret', n', t\<lparr>ptes := wp_entries rs (ptes t), tlb_flushes := fl'\<rparr>)" by blast
  then have "rmap_walk_from (pcache_wrprotect_one e p) no_done (r # rs) ret a s =
      Some (ret', n', s\<lparr>ptes := wp_entries (r # rs) (ptes s), tlb_flushes := fl'\<rparr>)"
    by (simp add: one t_def)
  then show ?case by blast
qed


text \<open>
  Clearing accessed bits, for the sweep: some entries become old, nothing else changes. The
  walk stops early at a referenced or contended entry.
\<close>

definition aged :: "(nat \<Rightarrow> pte) \<Rightarrow> (nat \<Rightarrow> pte) \<Rightarrow> bool" where
  "aged f g \<longleftrightarrow> (\<forall>x. g x = f x \<or> g x = pte_mkold (f x))"

lemma aged_simps [simp]: "aged f f" "aged f (f(x := pte_mkold (f x)))"
  by (simp_all add: aged_def)

lemma mkold_idem [simp]: "pte_mkold (pte_mkold v) = pte_mkold v"
  by (rule bit_eqI) auto

lemma aged_trans: "aged f g \<Longrightarrow> aged g h \<Longrightarrow> aged f h"
  unfolding aged_def by (metis mkold_idem)

lemma aged_same_frames:
  assumes "aged f g"
  shows "same_frames f g"
  unfolding same_frames_def
proof
  fix x
  have "g x = f x \<or> g x = pte_mkold (f x)" using assms unfolding aged_def by blast
  then show "pte_present (g x) = pte_present (f x) \<and> pte_pfn (g x) = pte_pfn (f x)" by auto
qed

lemma pcache_referenced_trylock_one_eq:
  assumes "leads_to e (ptes s) p [r]"
  shows "\<exists>ret prc' f. pcache_referenced_trylock_one e p r prc s = Some (ret, prc', s\<lparr>ptes := f\<rparr>) \<and> aged (ptes s) f"
proof -
  let ?l = "pte_lockptr e (owner_mm r) (rm_address r)"
  show ?thesis
  proof (cases "ptl_busy e ?l \<or> ?l \<in> ptl_held s")
    case True
    then have "pcache_referenced_trylock_one e p r prc s = Some (PCACHE_RMAP_SUCCEED, prc\<lparr>prc_pte_contention := True\<rparr>, s\<lparr>ptes := ptes s\<rparr>)"
      using assms by (auto simp: pcache_referenced_trylock_one_def rmap_get_pte_trylock_def)
    then show ?thesis using aged_simps(1) by blast
  next
    case False
    then have lk: "insert ?l (ptl_held s) - {?l} = ptl_held s" by auto
    let ?f = "if pte_young (ptes s (page_table r)) then (ptes s)(page_table r := pte_mkold (ptes s (page_table r))) else ptes s"
    have "\<exists>ret prc'. pcache_referenced_trylock_one e p r prc s = Some (ret, prc', s\<lparr>ptes := ?f\<rparr>)"
      using False assms lk
      by (simp add: pcache_referenced_trylock_one_def rmap_get_pte_trylock_def pc_defs Let_def split: if_splits)
    moreover have "aged (ptes s) ?f" by simp
    ultimately show ?thesis by blast
  qed
qed

lemma pcache_referenced_trylock_walk:
  assumes "leads_to e (ptes s) p rs"
  shows "\<exists>ret' prc' f. rmap_walk_from (pcache_referenced_trylock_one e p) no_done rs ret prc s =
    Some (ret', prc', s\<lparr>ptes := f\<rparr>) \<and> aged (ptes s) f"
  using assms
proof (induction rs arbitrary: ret prc s)
  case Nil
  have "rmap_walk_from (pcache_referenced_trylock_one e p) no_done [] ret prc s = Some (ret, prc, s\<lparr>ptes := ptes s\<rparr>)" by simp
  then show ?case using aged_simps(1) by blast
next
  case (Cons r rs)
  have l1: "leads_to e (ptes s) p [r]" using Cons.prems by simp
  obtain ret1 prc1 f where one: "pcache_referenced_trylock_one e p r prc s = Some (ret1, prc1, s\<lparr>ptes := f\<rparr>)" "aged (ptes s) f"
    using pcache_referenced_trylock_one_eq [OF l1, of prc] by blast
  define t where "t = s\<lparr>ptes := f\<rparr>"
  show ?case
  proof (cases "ret1 = PCACHE_RMAP_AGAIN")
    case False
    then have "rmap_walk_from (pcache_referenced_trylock_one e p) no_done (r # rs) ret prc s = Some (ret1, prc1, s\<lparr>ptes := f\<rparr>)"
      by (simp add: one(1))
    then show ?thesis using one(2) by blast
  next
    case True
    have "leads_to e (ptes t) p rs" using leads_to_frames [OF _ aged_same_frames [OF one(2)]] Cons.prems by (simp add: t_def)
    from Cons.IH [OF this, of ret1 prc1] obtain ret' prc' g where
      g: "rmap_walk_from (pcache_referenced_trylock_one e p) no_done rs ret1 prc1 t = Some (ret', prc', t\<lparr>ptes := g\<rparr>)" "aged (ptes t) g"
      by blast
    have "rmap_walk_from (pcache_referenced_trylock_one e p) no_done (r # rs) ret prc s = Some (ret', prc', s\<lparr>ptes := g\<rparr>)"
      using g(1) True by (simp add: one(1) t_def)
    moreover have "aged (ptes s) g" using aged_trans [OF one(2)] g(2) by (simp add: t_def)
    ultimately show ?thesis by blast
  qed
qed

subsection \<open>The sweep ages entries and reorders the LRU list\<close>

definition swept :: "nat \<Rightarrow> pstate \<Rightarrow> pstate \<Rightarrow> bool" where
  "swept k s t \<longleftrightarrow> (\<exists>f l. t = s\<lparr>ptes := f, pset := (pset s)(k := (pset s k)\<lparr>lru_list := l\<rparr>)\<rparr> \<and>
     aged (ptes s) f \<and> mset l = mset (lru_list (pset s k)))"

lemma swept_refl: "swept k s s"
  unfolding swept_def by (intro exI [of _ "ptes s"] exI [of _ "lru_list (pset s k)"]) simp

lemma swept_trans:
  assumes "swept k s t" "swept k t u"
  shows "swept k s u"
proof -
  obtain f l g m where t: "t = s\<lparr>ptes := f, pset := (pset s)(k := (pset s k)\<lparr>lru_list := l\<rparr>)\<rparr>" "aged (ptes s) f" "mset l = mset (lru_list (pset s k))"
    and u: "u = t\<lparr>ptes := g, pset := (pset t)(k := (pset t k)\<lparr>lru_list := m\<rparr>)\<rparr>" "aged (ptes t) g" "mset m = mset (lru_list (pset t k))"
    using assms unfolding swept_def by blast
  have "u = s\<lparr>ptes := g, pset := (pset s)(k := (pset s k)\<lparr>lru_list := m\<rparr>)\<rparr>" using t(1) u(1) by simp
  moreover have "aged (ptes s) g" "mset m = mset (lru_list (pset s k))" using t u aged_trans by auto
  ultimately show ?thesis unfolding swept_def by blast
qed

lemma pinv_swept:
  assumes inv: "pinv e L H B s" and sw: "swept k s t"
  shows "pinv e L H B t"
proof -
  obtain f l where t: "t = s\<lparr>ptes := f, pset := (pset s)(k := (pset s k)\<lparr>lru_list := l\<rparr>)\<rparr>" "aged (ptes s) f" "mset l = mset (lru_list (pset s k))"
    using sw unfolding swept_def by blast
  have "pinv e L H B (s\<lparr>ptes := f\<rparr>)" by (rule pinv_same_frames [OF inv aged_same_frames [OF t(2)]])
  then show ?thesis by (rule pinv_sets_meta_frame) (auto simp: t)
qed

lemma sweep_line:
  assumes inv: "pinv e L H B s" and k: "k < nsets e" and p: "p \<in> set (lru_list (pset s k))"
  obtains s1 moved s2 t where "PC_reclaim \<notin> bits (meta s p)" "lru_get_pcache p s = (False, s1)"
    "sweep_one e k p s1 = Some (moved, s2)" "lru_put_pcache e p k s2 = Some (False, t)" "swept k s t"
proof -
  let ?m = "meta s p"
  define s1 where "s1 = s\<lparr>meta := (meta s)(p := ?m\<lparr>refcount := refcount ?m + 1\<rparr>)\<rparr>"
  have q: "PC_reclaim \<notin> bits ?m" "0 < refcount ?m" using lru_quiet [OF inv k] p by auto
  have pn: "p < nl e" using list_member_set(2) [OF pinvD(2) [OF inv] k p] by simp
  have get: "lru_get_pcache p s = (False, s1)" using q(2) by (simp add: lru_get_pcache_def pc_defs s1_def)
  have put: "lru_put_pcache e p k (u\<lparr>meta := (meta s)(p := ?m\<lparr>refcount := refcount ?m + 1\<rparr>)\<rparr>) = Some (False, u)"
    if "meta u = meta s" for u
    using q(2) that by (simp add: lru_put_pcache_def pc_defs fun_upd_idem)
  show ?thesis
  proof (cases "PC_valid \<in> bits ?m \<and> PC_locked \<notin> bits ?m")
    case False
    have "sweep_one e k p s1 = Some (False, s1)"
      using False by (auto simp: sweep_one_def pc_defs s1_def insert_absorb)
    moreover have "lru_put_pcache e p k s1 = Some (False, s)" using put [of s] by (simp add: s1_def)
    ultimately show ?thesis by (rule that [OF q(1) get _ _ swept_refl])
  next
    case True
    have mo: "meta_ok e s p" using line_okD [OF pinvD(3) [OF inv] pn] by (simp add: line_ok_def)
    have mp: "mapcount ?m > 0" using mo True by (auto simp: meta_ok_def Let_def)
    define s2 where "s2 = s\<lparr>meta := (meta s)(p := ?m\<lparr>refcount := refcount ?m + 1, bits := insert PC_locked (bits ?m)\<rparr>)\<rparr>"
    have "leads_to e (ptes s2) p (rmap (meta s2 p))" using pinv_leads_to [OF inv pn] by (simp add: s2_def)
    from pcache_referenced_trylock_walk [OF this, of PCACHE_RMAP_AGAIN "\<lparr>prc_pte_contention = False, prc_referenced = 0, prc_mapcount = mapcount ?m\<rparr>"]
    obtain ret prc f where f: "rmap_walk_from (pcache_referenced_trylock_one e p) no_done (rmap (meta s2 p)) PCACHE_RMAP_AGAIN
        \<lparr>prc_pte_contention = False, prc_referenced = 0, prc_mapcount = mapcount ?m\<rparr> s2 = Some (ret, prc, s2\<lparr>ptes := f\<rparr>)" "aged (ptes s) f"
      by (auto simp: s2_def)
    have ref: "pcache_referenced_trylock e p s2 = Some (prc_referenced prc, prc_pte_contention prc, s2\<lparr>ptes := f\<rparr>)"
      using f(1) mp by (simp add: pcache_referenced_trylock_def rmap_walk_def PcacheBit_def pcache_mapped_def pcache_mapcount_def s2_def)
    let ?mv = "\<not> prc_pte_contention prc \<and> prc_referenced prc = 0"
    let ?l = "if ?mv then remove1 p (lru_list (pset s k)) @ [p] else lru_list (pset s k)"
    define u where "u = s\<lparr>ptes := f, pset := (pset s)(k := (pset s k)\<lparr>lru_list := ?l\<rparr>)\<rparr>"
    have "sweep_one e k p s1 = Some (?mv, u\<lparr>meta := (meta s)(p := ?m\<lparr>refcount := refcount ?m + 1\<rparr>)\<rparr>)"
    proof -
      have tl: "trylock_pcache p s1 = (True, s2)" using True by (simp add: trylock_pcache_def pc_defs s1_def s2_def)
      have b: "insert PC_locked (bits ?m) - {PC_locked} = bits ?m" using True by auto
      have m: "pcache_mapped p s2" using mp by (simp add: pcache_mapped_def s2_def)
      have v: "PcacheBit PC_valid p s1" using True by (simp add: PcacheBit_def s1_def)
      show ?thesis
        unfolding sweep_one_def using v tl m ref
        by (simp add: Let_def) (auto simp: s2_def u_def lru_move_tail_def pc_defs b)
    qed
    moreover have "swept k s u"
    proof -
      have "mset ?l = mset (lru_list (pset s k))" using p by auto
      then show ?thesis unfolding swept_def using f(2) u_def by blast
    qed
    moreover have "meta u = meta s" by (simp add: u_def)
    ultimately show ?thesis by (metis that [OF q(1) get] put)
  qed
qed


lemma swept_lru: "swept k s t \<Longrightarrow> set (lru_list (pset t k)) = set (lru_list (pset s k))"
  unfolding swept_def by (auto dest: mset_eq_setD)

lemma sweep_from_swept:
  assumes "pinv e L H B s" "k < nsets e" "set ps \<subseteq> set (lru_list (pset s k))"
  shows "\<exists>t. sweep_from e k ps n g s = Some t \<and> swept k s t"
  using assms
proof (induction ps arbitrary: n g s)
  case Nil
  then show ?case using swept_refl by simp
next
  case (Cons p ps)
  have pin: "p \<in> set (lru_list (pset s k))" using Cons.prems(3) by simp
  obtain s1 moved s2 t where st: "PC_reclaim \<notin> bits (meta s p)" "lru_get_pcache p s = (False, s1)"
      "sweep_one e k p s1 = Some (moved, s2)" "lru_put_pcache e p k s2 = Some (False, t)" and sw: "swept k s t"
    by (rule sweep_line [OF Cons.prems(1,2) pin])
  have "set ps \<subseteq> set (lru_list (pset t k))" using Cons.prems(3) swept_lru [OF sw] by auto
  from Cons.IH [OF pinv_swept [OF Cons.prems(1) sw] Cons.prems(2) this]
  have "\<exists>u. sweep_from e k ps n' g' t = Some u \<and> swept k s u" for n' g' using swept_trans [OF sw] by blast
  then show ?case using st sw by (auto simp: PcacheBit_def Let_def)
qed

lemma sweep_pset_swept:
  assumes "pinv e L H B s" "k < nsets e"
  shows "\<exists>t. sweep_pset e k s = Some t \<and> swept k s t"
  using sweep_from_swept [OF assms subset_refl] swept_refl [of k s]
  by (auto simp: sweep_pset_def split: prod.splits)

text \<open>What the daemon may change in one round, over all sets.\<close>

definition sweep_effect :: "pstate \<Rightarrow> pstate \<Rightarrow> bool" where
  "sweep_effect s t \<longleftrightarrow> meta t = meta s \<and> line t = line s \<and> net t = net s \<and> tlb_flushes t = tlb_flushes s \<and>
     ptl_held t = ptl_held s \<and> aged (ptes s) (ptes t) \<and>
     (\<forall>k. free_head (pset t k) = free_head (pset s k) \<and> mset (lru_list (pset t k)) = mset (lru_list (pset s k)))"

lemma sweep_effect_trans: "sweep_effect s t \<Longrightarrow> sweep_effect t u \<Longrightarrow> sweep_effect s u"
  unfolding sweep_effect_def using aged_trans by metis

lemma swept_effect: "swept k s t \<Longrightarrow> sweep_effect s t"
  unfolding swept_def sweep_effect_def by auto

lemma pset_flag_effect: "sweep_effect s (SetPset fl k s)" "sweep_effect s (ClearPset fl k s)"
  by (simp_all add: sweep_effect_def pc_defs)

lemma pinv_pset_flag:
  assumes "pinv e L H B s"
  shows "pinv e L H B (SetPset fl k s)" "pinv e L H B (ClearPset fl k s)"
  by (rule pinv_sets_meta_frame [OF assms]; auto simp: pc_defs)+

lemma kevict_sweepd_sets_ok:
  assumes "pinv e L H B s" "\<forall>k \<in> set ks. k < nsets e"
  shows "\<exists>t. kevict_sweepd_sets e ks s = Some t \<and> pinv e L H B t \<and> sweep_effect s t"
  using assms
proof (induction ks arbitrary: s)
  case Nil
  then show ?case by (simp add: sweep_effect_def)
next
  case (Cons k ks)
  show ?case
  proof (cases "PsetFlag PCACHE_SET_evicting k s \<or> pset_has_free_lines e k s")
    case True
    then show ?thesis using Cons by auto
  next
    case False
    let ?s = "SetPset PCACHE_SET_sweeping k s"
    have k: "k < nsets e" using Cons.prems(2) by simp
    note i = pinv_pset_flag(1) [OF Cons.prems(1), of PCACHE_SET_sweeping k]
    obtain t where t: "sweep_pset e k ?s = Some t" "swept k ?s t" using sweep_pset_swept [OF i k] by blast
    let ?t = "ClearPset PCACHE_SET_sweeping k t"
    have it: "pinv e L H B ?t" by (rule pinv_pset_flag(2) [OF pinv_swept [OF i t(2)]])
    have "sweep_effect s ?t"
      using sweep_effect_trans [OF sweep_effect_trans [OF pset_flag_effect(1) swept_effect [OF t(2)]] pset_flag_effect(2)] .
    moreover obtain u where "kevict_sweepd_sets e ks ?t = Some u" "pinv e L H B u" "sweep_effect ?t u"
      using Cons.IH [OF it] Cons.prems(2) by auto
    ultimately show ?thesis using False t(1) sweep_effect_trans by (auto simp: pc_defs)
  qed
qed

end
