(* ===== verification/Pcache_Pgtable.thy ===== *)
theory Pcache_Pgtable
  imports Pcache_Sweep
begin

section \<open>Ranges of the emulated page table\<close>

text \<open>
  \<open>managers/processor/pgtable.c\<close>: zapping, freeing, copying, moving and zero-fill marking of
  ranges of user addresses. The four levels of the page table are the four nested loops of the
  code; \<open>pt_levels\<close> says which upper level entries are empty (\<open>pgd_none_or_clear_bad\<close> and so
  on; a bad entry counts as empty) and which allocations of upper level tables succeed. The
  entry of an address in its last level table is \<open>pte_ptr\<close>.

  A loop of the form \<open>do ... while (addr = next, addr != end)\<close> is \<open>range_loop\<close>; where the
  code would run past the end of its range the model has \<open>None\<close>.
\<close>

record pt_levels =
  pgd_none :: "nat \<Rightarrow> u64 \<Rightarrow> bool"
  pud_none :: "nat \<Rightarrow> u64 \<Rightarrow> bool"
  pmd_none :: "nat \<Rightarrow> u64 \<Rightarrow> bool"
  pud_alloc_ok :: "nat \<Rightarrow> u64 \<Rightarrow> bool"
  pmd_alloc_ok :: "nat \<Rightarrow> u64 \<Rightarrow> bool"

definition PMD_SHIFT :: nat where "PMD_SHIFT = 21"
definition PUD_SHIFT :: nat where "PUD_SHIFT = 30"
definition PGDIR_SHIFT :: nat where "PGDIR_SHIFT = 39"
definition PMD_SIZE :: u64 where "PMD_SIZE = push_bit PMD_SHIFT 1"
definition PMD_MASK :: u64 where "PMD_MASK = NOT (PMD_SIZE - 1)"
definition PUD_SIZE :: u64 where "PUD_SIZE = push_bit PUD_SHIFT 1"
definition PUD_MASK :: u64 where "PUD_MASK = NOT (PUD_SIZE - 1)"
definition PGDIR_SIZE :: u64 where "PGDIR_SIZE = push_bit PGDIR_SHIFT 1"
definition PGDIR_MASK :: u64 where "PGDIR_MASK = NOT (PGDIR_SIZE - 1)"

definition pgd_addr_end :: "u64 \<Rightarrow> u64 \<Rightarrow> u64" where
  "pgd_addr_end addr end =
     (let boundary = (addr + PGDIR_SIZE) AND PGDIR_MASK in if boundary - 1 < end - 1 then boundary else end)"

definition pud_addr_end :: "u64 \<Rightarrow> u64 \<Rightarrow> u64" where
  "pud_addr_end addr end =
     (let boundary = (addr + PUD_SIZE) AND PUD_MASK in if boundary - 1 < end - 1 then boundary else end)"

definition pmd_addr_end :: "u64 \<Rightarrow> u64 \<Rightarrow> u64" where
  "pmd_addr_end addr end =
     (let boundary = (addr + PMD_SIZE) AND PMD_MASK in if boundary - 1 < end - 1 then boundary else end)"

definition pte_addr_end :: "u64 \<Rightarrow> u64 \<Rightarrow> u64" where
  "pte_addr_end addr end = addr + PAGE_SIZE"

text \<open>The body of a loop returns the value it gives to \<open>next\<close>.\<close>

function range_loop ::
  "(u64 \<Rightarrow> u64 \<Rightarrow> u64) \<Rightarrow> (u64 \<Rightarrow> u64 \<Rightarrow> 's \<Rightarrow> (u64 \<times> 's) option) \<Rightarrow> u64 \<Rightarrow> u64 \<Rightarrow> 's \<Rightarrow> (u64 \<times> 's) option" where
  "range_loop addr_end body addr end s = do {
     (nxt, s) \<leftarrow> body addr (addr_end addr end) s;
     if nxt = end then Some (nxt, s)
     else if addr < nxt \<and> nxt < end then range_loop addr_end body nxt end s
     else None }"
  by pat_completeness auto
termination
  by (relation "measure (\<lambda>(_, _, addr, end, _). unat end - unat addr)")
     (auto simp: word_less_nat_alt)

text \<open>The same for bodies that may fail: a result other than 0 ends the loop.\<close>

function range_loop_err ::
  "(u64 \<Rightarrow> u64 \<Rightarrow> u64) \<Rightarrow> (u64 \<Rightarrow> u64 \<Rightarrow> 's \<Rightarrow> (int \<times> 's) option) \<Rightarrow> u64 \<Rightarrow> u64 \<Rightarrow> 's \<Rightarrow> (int \<times> 's) option" where
  "range_loop_err addr_end body addr end s = do {
     let nxt = addr_end addr end;
     (ret, s) \<leftarrow> body addr nxt s;
     if ret \<noteq> 0 then Some (ret, s)
     else if nxt = end then Some (0, s)
     else if addr < nxt \<and> nxt < end then range_loop_err addr_end body nxt end s
     else None }"
  by pat_completeness auto
termination
  by (relation "measure (\<lambda>(_, _, addr, end, _). unat end - unat addr)")
     (auto simp: word_less_nat_alt)

declare range_loop.simps [simp del] range_loop_err.simps [simp del]

subsection \<open>Freeing page tables\<close>

definition free_pte_range :: "penv \<Rightarrow> nat \<Rightarrow> u64 \<Rightarrow> u64 \<Rightarrow> pstate \<Rightarrow> pstate option" where
  "free_pte_range e mm addr end s = do {
     let ptl = pte_lockptr e mm addr;
     s \<leftarrow> spin_lock_ptl ptl s;
     (_, s) \<leftarrow> range_loop pte_addr_end
        (\<lambda>a n s. Some (n, pte_clear (pte_ptr e mm a) s)) addr end s;
     Some (spin_unlock_ptl ptl s) }"

definition free_pmd_range :: "pt_levels \<Rightarrow> penv \<Rightarrow> nat \<Rightarrow> u64 \<Rightarrow> u64 \<Rightarrow> pstate \<Rightarrow> pstate option" where
  "free_pmd_range w e mm addr end s = do {
     (_, s) \<leftarrow> range_loop pmd_addr_end
        (\<lambda>a n s. if pmd_none w mm a then Some (n, s)
                 else do { s \<leftarrow> free_pte_range e mm a n s; Some (n, s) }) addr end s;
     Some s }"

definition free_pud_range :: "pt_levels \<Rightarrow> penv \<Rightarrow> nat \<Rightarrow> u64 \<Rightarrow> u64 \<Rightarrow> pstate \<Rightarrow> pstate option" where
  "free_pud_range w e mm addr end s = do {
     (_, s) \<leftarrow> range_loop pud_addr_end
        (\<lambda>a n s. if pud_none w mm a then Some (n, s)
                 else do { s \<leftarrow> free_pmd_range w e mm a n s; Some (n, s) }) addr end s;
     Some s }"

definition free_pgd_range :: "pt_levels \<Rightarrow> penv \<Rightarrow> nat \<Rightarrow> u64 \<Rightarrow> u64 \<Rightarrow> pstate \<Rightarrow> pstate option" where
  "free_pgd_range w e mm addr end s =
     (if addr > end - 1 then Some s
      else do {
        (_, s) \<leftarrow> range_loop pgd_addr_end
           (\<lambda>a n s. if pgd_none w mm a then Some (n, s)
                    else do { s \<leftarrow> free_pud_range w e mm a n s; Some (n, s) }) addr end s;
        Some (flush_tlb_mm_range mm addr end s) })"

subsection \<open>Zapping\<close>

text \<open>One entry, with the retries after \<open>-EAGAIN\<close>.\<close>

fun zap_pte_retry :: "nat \<Rightarrow> penv \<Rightarrow> nat \<Rightarrow> u64 \<Rightarrow> nat \<Rightarrow> nat \<Rightarrow> pstate \<Rightarrow> pstate option" where
  "zap_pte_retry n e mm addr ptep ptl s =
     (let ptent = ptes s ptep in
      if pte_none ptent then Some s
      else if pte_present ptent
      then do {
        (ret, s) \<leftarrow> pcache_zap_pte e mm addr ptent ptep ptl s;
        if ret = 0 then Some s
        else if ret = - EAGAIN
        then (case n of 0 \<Rightarrow> None | Suc n \<Rightarrow> zap_pte_retry n e mm addr ptep ptl s)
        else Some (pte_clear ptep s) }
      else Some (pte_clear ptep s))"

declare zap_pte_retry.simps [simp del]

definition zap_pte_range :: "penv \<Rightarrow> nat \<Rightarrow> u64 \<Rightarrow> u64 \<Rightarrow> pstate \<Rightarrow> (u64 \<times> pstate) option" where
  "zap_pte_range e mm addr end s = do {
     let ptl = pte_lockptr e mm addr;
     s \<leftarrow> spin_lock_ptl ptl s;
     (addr, s) \<leftarrow> range_loop pte_addr_end
        (\<lambda>a n s. do { s \<leftarrow> zap_pte_retry (spin_rounds e) e mm a (pte_ptr e mm a) ptl s; Some (n, s) }) addr end s;
     Some (addr, spin_unlock_ptl ptl s) }"

definition zap_pmd_range :: "pt_levels \<Rightarrow> penv \<Rightarrow> nat \<Rightarrow> u64 \<Rightarrow> u64 \<Rightarrow> pstate \<Rightarrow> (u64 \<times> pstate) option" where
  "zap_pmd_range w e mm addr end s =
     range_loop pmd_addr_end (\<lambda>a n s. if pmd_none w mm a then Some (n, s) else zap_pte_range e mm a n s) addr end s"

definition zap_pud_range :: "pt_levels \<Rightarrow> penv \<Rightarrow> nat \<Rightarrow> u64 \<Rightarrow> u64 \<Rightarrow> pstate \<Rightarrow> (u64 \<times> pstate) option" where
  "zap_pud_range w e mm addr end s =
     range_loop pud_addr_end (\<lambda>a n s. if pud_none w mm a then Some (n, s) else zap_pmd_range w e mm a n s) addr end s"

definition unmap_page_range :: "pt_levels \<Rightarrow> penv \<Rightarrow> nat \<Rightarrow> u64 \<Rightarrow> u64 \<Rightarrow> pstate \<Rightarrow> pstate option" where
  "unmap_page_range w e mm addr end s = do {
     bug_on (addr \<ge> end);
     (_, s) \<leftarrow> range_loop pgd_addr_end
        (\<lambda>a n s. if pgd_none w mm a then Some (n, s) else zap_pud_range w e mm a n s) addr end s;
     Some s }"

definition release_pgtable :: "pt_levels \<Rightarrow> penv \<Rightarrow> nat \<Rightarrow> u64 \<Rightarrow> u64 \<Rightarrow> pstate \<Rightarrow> pstate option" where
  "release_pgtable w e tsk start end s = do {
     let mm = task_mm (task e tsk);
     s \<leftarrow> unmap_page_range w e mm start end s;
     free_pgd_range w e mm start end s }"

subsection \<open>Copying for fork\<close>

definition VM_WRITE :: u64 where "VM_WRITE = 0x2"
definition VM_SHARED :: u64 where "VM_SHARED = 0x8"

definition is_cow_mapping :: "u64 \<Rightarrow> bool" where
  "is_cow_mapping flags \<longleftrightarrow> flags AND (VM_SHARED OR VM_WRITE) = VM_WRITE"

definition pcache_copy_one_pte ::
  "penv \<Rightarrow> nat \<Rightarrow> nat \<Rightarrow> nat \<Rightarrow> nat \<Rightarrow> u64 \<Rightarrow> u64 \<Rightarrow> nat \<Rightarrow> pstate \<Rightarrow> (int \<times> pstate) option" where
  "pcache_copy_one_pte e dst_mm src_mm dst_pte src_pte addr vm_flags dst_task s = do {
     let pte = ptes s src_pte;
     let (pte, s) = (if is_cow_mapping vm_flags
        then (pte_wrprotect pte, flush_tlb_mm_range src_mm addr (addr + PAGE_SIZE)
                (pte_set src_pte (pte_wrprotect (ptes s src_pte)) s))
        else (pte, s));
     let pte = (if vm_flags AND VM_SHARED \<noteq> 0 then pte_mkclean pte else pte);
     let pte = pte_mkold pte;
     let s = pte_set dst_pte pte s;
     (case pte_to_pcache_meta (geom e) pte of
        None \<Rightarrow> Some (0, s)
      | Some p \<Rightarrow> do {
          s \<leftarrow> get_pcache p s;
          (_, s) \<leftarrow> pcache_add_rmap e p dst_pte addr dst_mm dst_task RMAP_FORK s;
          Some (0, s) }) }"

definition pcache_copy_pte ::
  "penv \<Rightarrow> nat \<Rightarrow> nat \<Rightarrow> u64 \<Rightarrow> nat \<Rightarrow> u64 \<Rightarrow> u64 \<Rightarrow> pstate \<Rightarrow> (int \<times> pstate) option" where
  "pcache_copy_pte e dst_mm src_mm vm_flags dst_task addr nxt s =
     (let src_pte = pte_ptr e src_mm addr; dst_pte = pte_ptr e dst_mm addr; ptecont = ptes s src_pte in
      if pte_none ptecont then Some (0, s)
      else if \<not> pte_present ptecont
      then (if \<not> pte_zerofill ptecont then Some (0, s) else Some (0, pte_set dst_pte ptecont s))
      else do {
        (ret, s) \<leftarrow> pcache_copy_one_pte e dst_mm src_mm dst_pte src_pte addr vm_flags dst_task s;
        Some (if ret \<noteq> 0 then - ENOMEM else 0, s) })"

text \<open>The loop's own result is dropped: the function returns 0 whatever \<open>ret\<close> is.\<close>

definition pcache_copy_pte_range ::
  "penv \<Rightarrow> nat \<Rightarrow> nat \<Rightarrow> u64 \<Rightarrow> nat \<Rightarrow> u64 \<Rightarrow> u64 \<Rightarrow> pstate \<Rightarrow> (int \<times> pstate) option" where
  "pcache_copy_pte_range e dst_mm src_mm vm_flags dst_task addr end s =
     (if \<not> pte_alloc_ok e dst_mm addr then Some (- ENOMEM, s)
      else do {
        let dst_ptl = pte_lockptr e dst_mm addr;
        let src_ptl = pte_lockptr e src_mm addr;
        s \<leftarrow> spin_lock_ptl dst_ptl s;
        s \<leftarrow> (if src_ptl \<noteq> dst_ptl then spin_lock_ptl src_ptl s else Some s);
        (_, s) \<leftarrow> range_loop_err pte_addr_end (pcache_copy_pte e dst_mm src_mm vm_flags dst_task) addr end s;
        let s = (if src_ptl \<noteq> dst_ptl then spin_unlock_ptl src_ptl s else s);
        Some (0, spin_unlock_ptl dst_ptl s) })"

definition pcache_copy_pmd_range ::
  "pt_levels \<Rightarrow> penv \<Rightarrow> nat \<Rightarrow> nat \<Rightarrow> u64 \<Rightarrow> nat \<Rightarrow> u64 \<Rightarrow> u64 \<Rightarrow> pstate \<Rightarrow> (int \<times> pstate) option" where
  "pcache_copy_pmd_range w e dst_mm src_mm vm_flags dst_task addr end s =
     (if \<not> pmd_alloc_ok w dst_mm addr then Some (- ENOMEM, s)
      else range_loop_err pmd_addr_end
        (\<lambda>a n s. if pmd_none w src_mm a then Some (0, s)
           else do { (ret, s) \<leftarrow> pcache_copy_pte_range e dst_mm src_mm vm_flags dst_task a n s;
                     Some (if ret \<noteq> 0 then - ENOMEM else 0, s) }) addr end s)"

definition pcache_copy_pud_range ::
  "pt_levels \<Rightarrow> penv \<Rightarrow> nat \<Rightarrow> nat \<Rightarrow> u64 \<Rightarrow> nat \<Rightarrow> u64 \<Rightarrow> u64 \<Rightarrow> pstate \<Rightarrow> (int \<times> pstate) option" where
  "pcache_copy_pud_range w e dst_mm src_mm vm_flags dst_task addr end s =
     (if \<not> pud_alloc_ok w dst_mm addr then Some (- ENOMEM, s)
      else range_loop_err pud_addr_end
        (\<lambda>a n s. if pud_none w src_mm a then Some (0, s)
           else do { (ret, s) \<leftarrow> pcache_copy_pmd_range w e dst_mm src_mm vm_flags dst_task a n s;
                     Some (if ret \<noteq> 0 then - ENOMEM else 0, s) }) addr end s)"

definition pcache_copy_page_range ::
  "pt_levels \<Rightarrow> penv \<Rightarrow> nat \<Rightarrow> nat \<Rightarrow> u64 \<Rightarrow> u64 \<Rightarrow> u64 \<Rightarrow> nat \<Rightarrow> pstate \<Rightarrow> (int \<times> pstate) option" where
  "pcache_copy_page_range w e dst src addr end vm_flags dst_task s =
     range_loop_err pgd_addr_end
       (\<lambda>a n s. if pgd_none w src a then Some (0, s)
          else do { (ret, s) \<leftarrow> pcache_copy_pud_range w e dst src vm_flags dst_task a n s;
                    Some (if ret \<noteq> 0 then - ENOMEM else 0, s) }) addr end s"

subsection \<open>Moving for mremap\<close>

fun move_pte_retry :: "nat \<Rightarrow> penv \<Rightarrow> nat \<Rightarrow> u64 \<Rightarrow> u64 \<Rightarrow> nat \<Rightarrow> pstate \<Rightarrow> pstate option" where
  "move_pte_retry n e mm old_addr new_addr old_ptl s =
     (let old_pte = pte_ptr e mm old_addr; new_pte = pte_ptr e mm new_addr in
      if pte_none (ptes s old_pte) then Some s
      else if \<not> pte_present (ptes s old_pte)
      then (case ptep_get_and_clear old_pte s of
        (pte, s) \<Rightarrow> if \<not> pte_zerofill pte then Some s else Some (pte_set new_pte pte s))
      else do {
        (ret, s) \<leftarrow> pcache_move_pte e mm old_pte new_pte old_addr new_addr old_ptl s;
        if ret = 0 then Some s
        else if ret = - EAGAIN \<or> ret = - ENOMEM
        then (case n of 0 \<Rightarrow> None | Suc n \<Rightarrow> move_pte_retry n e mm old_addr new_addr old_ptl s)
        else None })"

declare move_pte_retry.simps [simp del]

function move_ptes_loop :: "penv \<Rightarrow> nat \<Rightarrow> u64 \<Rightarrow> u64 \<Rightarrow> u64 \<Rightarrow> nat \<Rightarrow> pstate \<Rightarrow> pstate option" where
  "move_ptes_loop e mm old_addr old_end new_addr old_ptl s =
     (if \<not> old_addr < old_end then Some s
      else do {
        s \<leftarrow> move_pte_retry (spin_rounds e) e mm old_addr new_addr old_ptl s;
        if old_addr < old_addr + PAGE_SIZE
        then move_ptes_loop e mm (old_addr + PAGE_SIZE) old_end (new_addr + PAGE_SIZE) old_ptl s
        else None })"
  by pat_completeness auto
termination
  by (relation "measure (\<lambda>(_, _, addr, end, _). unat end - unat addr)")
     (auto simp: word_less_nat_alt)

declare move_ptes_loop.simps [simp del]

definition move_ptes :: "penv \<Rightarrow> nat \<Rightarrow> u64 \<Rightarrow> u64 \<Rightarrow> u64 \<Rightarrow> pstate \<Rightarrow> pstate option" where
  "move_ptes e mm old_addr old_end new_addr s = do {
     let len = old_end - old_addr;
     let old_ptl = pte_lockptr e mm old_addr;
     let new_ptl = pte_lockptr e mm new_addr;
     s \<leftarrow> spin_lock_ptl old_ptl s;
     s \<leftarrow> (if new_ptl \<noteq> old_ptl then spin_lock_ptl new_ptl s else Some s);
     s \<leftarrow> move_ptes_loop e mm old_addr old_end new_addr old_ptl s;
     let s = (if new_ptl \<noteq> old_ptl then spin_unlock_ptl new_ptl s else s);
     Some (flush_tlb_mm_range mm (old_end - len) old_end (spin_unlock_ptl old_ptl s)) }"

definition LATENCY_LIMIT :: u64 where "LATENCY_LIMIT = 64 * PAGE_SIZE"

definition get_old_pmd :: "pt_levels \<Rightarrow> nat \<Rightarrow> u64 \<Rightarrow> bool" where
  "get_old_pmd w mm addr \<longleftrightarrow> \<not> pgd_none w mm addr \<and> \<not> pud_none w mm addr \<and> \<not> pmd_none w mm addr"

definition alloc_new_pmd :: "pt_levels \<Rightarrow> nat \<Rightarrow> u64 \<Rightarrow> bool" where
  "alloc_new_pmd w mm addr \<longleftrightarrow> pud_alloc_ok w mm addr \<and> pmd_alloc_ok w mm addr"

definition first_extent :: "u64 \<Rightarrow> u64 \<Rightarrow> u64" where
  "first_extent old_addr old_end =
     (let extent = ((old_addr + PMD_SIZE) AND PMD_MASK) - old_addr in
      if extent > old_end - old_addr then old_end - old_addr else extent)"

definition clip_extent :: "u64 \<Rightarrow> u64 \<Rightarrow> u64" where
  "clip_extent new_addr extent =
     (let nxt = (new_addr + PMD_SIZE) AND PMD_MASK;
          extent = (if extent > nxt - new_addr then nxt - new_addr else extent) in
      if extent > LATENCY_LIMIT then LATENCY_LIMIT else extent)"

text \<open>The loop of \<open>move_page_tables\<close>; the result is \<open>old_addr\<close> where it stopped.\<close>

function move_page_tables_loop ::
  "pt_levels \<Rightarrow> penv \<Rightarrow> nat \<Rightarrow> u64 \<Rightarrow> u64 \<Rightarrow> u64 \<Rightarrow> pstate \<Rightarrow> (u64 \<times> pstate) option" where
  "move_page_tables_loop w e mm old_addr old_end new_addr s =
     (if \<not> old_addr < old_end then Some (old_addr, s)
      else let extent = first_extent old_addr old_end in
        if \<not> get_old_pmd w mm old_addr
        then (if old_addr < old_addr + extent
              then move_page_tables_loop w e mm (old_addr + extent) old_end (new_addr + extent) s else None)
        else if \<not> alloc_new_pmd w mm new_addr \<or> \<not> pte_alloc_ok e mm new_addr then Some (old_addr, s)
        else let extent = clip_extent new_addr extent in do {
          s \<leftarrow> move_ptes e mm old_addr (old_addr + extent) new_addr s;
          if old_addr < old_addr + extent
          then move_page_tables_loop w e mm (old_addr + extent) old_end (new_addr + extent) s else None })"
  by pat_completeness auto
termination
  by (relation "measure (\<lambda>(_, _, _, addr, end, _). unat end - unat addr)")
     (auto simp: word_less_nat_alt)

declare move_page_tables_loop.simps [simp del]

definition move_page_tables ::
  "pt_levels \<Rightarrow> penv \<Rightarrow> nat \<Rightarrow> u64 \<Rightarrow> u64 \<Rightarrow> u64 \<Rightarrow> pstate \<Rightarrow> (u64 \<times> pstate) option" where
  "move_page_tables w e tsk old_addr new_addr len s = do {
     let mm = task_mm (task e tsk);
     let old_end = old_addr + len;
     (old_addr, s) \<leftarrow> move_page_tables_loop w e mm old_addr old_end new_addr s;
     Some (len + old_addr - old_end, s) }"

subsection \<open>Marking a range for zero fill\<close>

definition ptep_set_zerofill :: "nat \<Rightarrow> pstate \<Rightarrow> pstate" where
  "ptep_set_zerofill ptep s = pte_set ptep (pte_mkzerofill (ptes s ptep)) s"

text \<open>The result of \<open>pte_alloc\<close> is used without a check; a failed allocation is a fault in the kernel.\<close>

definition zerofill_set_pte_range :: "penv \<Rightarrow> nat \<Rightarrow> u64 \<Rightarrow> u64 \<Rightarrow> pstate \<Rightarrow> (u64 \<times> pstate) option" where
  "zerofill_set_pte_range e mm addr end s = do {
     bug_on (\<not> pte_alloc_ok e mm addr);
     let ptl = pte_lockptr e mm addr;
     s \<leftarrow> spin_lock_ptl ptl s;
     (addr, s) \<leftarrow> range_loop pte_addr_end (\<lambda>a n s. Some (n, ptep_set_zerofill (pte_ptr e mm a) s)) addr end s;
     Some (addr, spin_unlock_ptl ptl s) }"

text \<open>\<open>-ENOMEM\<close> is returned as an address; the caller compares for equality.\<close>

definition MINUS_ENOMEM :: u64 where "MINUS_ENOMEM = of_int (- ENOMEM)"

text \<open>
  A loop that leaves with \<open>-ENOMEM\<close> when its body did; \<open>next\<close> is never \<open>-ENOMEM\<close> otherwise, as
  user addresses end below it.
\<close>

function range_loop_nomem ::
  "(u64 \<Rightarrow> u64 \<Rightarrow> u64) \<Rightarrow> (u64 \<Rightarrow> u64 \<Rightarrow> 's \<Rightarrow> (u64 \<times> 's) option) \<Rightarrow> u64 \<Rightarrow> u64 \<Rightarrow> 's \<Rightarrow> (u64 \<times> 's) option" where
  "range_loop_nomem addr_end body addr end s = do {
     (nxt, s) \<leftarrow> body addr (addr_end addr end) s;
     if nxt = MINUS_ENOMEM then Some (MINUS_ENOMEM, s)
     else if nxt = end then Some (nxt, s)
     else if addr < nxt \<and> nxt < end then range_loop_nomem addr_end body nxt end s
     else None }"
  by pat_completeness auto
termination
  by (relation "measure (\<lambda>(_, _, addr, end, _). unat end - unat addr)")
     (auto simp: word_less_nat_alt)

declare range_loop_nomem.simps [simp del]

definition zerofill_set_pmd_range :: "pt_levels \<Rightarrow> penv \<Rightarrow> nat \<Rightarrow> u64 \<Rightarrow> u64 \<Rightarrow> pstate \<Rightarrow> (u64 \<times> pstate) option" where
  "zerofill_set_pmd_range w e mm addr end s =
     (if \<not> pmd_alloc_ok w mm addr then Some (MINUS_ENOMEM, s)
      else range_loop_nomem pmd_addr_end (zerofill_set_pte_range e mm) addr end s)"

definition zerofill_set_pud_range :: "pt_levels \<Rightarrow> penv \<Rightarrow> nat \<Rightarrow> u64 \<Rightarrow> u64 \<Rightarrow> pstate \<Rightarrow> (u64 \<times> pstate) option" where
  "zerofill_set_pud_range w e mm addr end s =
     (if \<not> pud_alloc_ok w mm addr then Some (MINUS_ENOMEM, s)
      else range_loop_nomem pud_addr_end (zerofill_set_pmd_range w e mm) addr end s)"

definition zerofill_set_range :: "pt_levels \<Rightarrow> penv \<Rightarrow> nat \<Rightarrow> u64 \<Rightarrow> u64 \<Rightarrow> pstate \<Rightarrow> (int \<times> pstate) option" where
  "zerofill_set_range w e tsk start len s = do {
     let end = (start + len + PAGE_SIZE - 1) AND PAGE_MASK;
     bug_on (start \<ge> end);
     (r, s) \<leftarrow> range_loop_nomem pgd_addr_end (zerofill_set_pud_range w e (task_mm (task e tsk))) start end s;
     Some (if r = MINUS_ENOMEM then - ENOMEM else 0, s) }"

definition zerofill_clear_range :: "nat \<Rightarrow> u64 \<Rightarrow> u64 \<Rightarrow> int" where
  "zerofill_clear_range tsk start len = 0"

subsection \<open>The loops stay in their range\<close>

definition addr_end :: "nat \<Rightarrow> u64 \<Rightarrow> u64 \<Rightarrow> u64" where
  "addr_end sh addr end =
     (let boundary = (addr + 2 ^ sh) AND NOT (2 ^ sh - 1) in if boundary - 1 < end - 1 then boundary else end)"

lemma addr_end_levels:
  "pgd_addr_end = addr_end 39" "pud_addr_end = addr_end 30" "pmd_addr_end = addr_end 21"
  by (simp_all add: fun_eq_iff pgd_addr_end_def pud_addr_end_def pmd_addr_end_def addr_end_def PGDIR_SIZE_def PGDIR_MASK_def
      PUD_SIZE_def PUD_MASK_def PMD_SIZE_def PMD_MASK_def PGDIR_SHIFT_def PUD_SHIFT_def PMD_SHIFT_def push_bit_of_1)

lemma unat_power_2:
  assumes "sh < 64"
  shows "unat (2 ^ sh :: u64) = 2 ^ sh"
proof -
  have "unat (of_nat (2 ^ sh) :: u64) = 2 ^ sh"
    using assms by (simp only: unsigned_of_nat take_bit_nat_eq_self_iff) simp
  then show ?thesis by simp
qed

text \<open>The next boundary or the end, whichever is first, also at the top of the address space.\<close>

lemma unat_addr_end:
  assumes "addr < end" "sh < 64"
  shows "unat (addr_end sh addr end) = min ((unat addr div 2 ^ sh + 1) * 2 ^ sh) (unat end)"
proof -
  let ?q = "unat addr div 2 ^ sh" and ?b = "(addr + 2 ^ sh) AND NOT (2 ^ sh - 1) :: u64"
  have ae: "unat addr < unat end" "unat end < 2 ^ 64" "unat addr < 2 ^ 64"
    using assms(1) unat_less_2p64 [of "end"] unat_less_2p64 [of addr] by (simp_all add: word_less_nat_alt)
  have p: "unat (2 ^ sh :: u64) = 2 ^ sh" using assms(2) by (rule unat_power_2)
  have e1: "unat (end - 1) = unat end - 1" using ae(1) by (simp add: unat_sub_no_wrap)
  show ?thesis
  proof (cases "unat addr + 2 ^ sh < 2 ^ 64")
    case True
    have "unat (addr + 2 ^ sh) = unat addr + 2 ^ sh" by (rule unat_add_eqI [OF refl p True])
    moreover have "(unat addr + 2 ^ sh) div 2 ^ sh = ?q + 1" by (rule div_add_self2) simp
    ultimately have b: "unat ?b = (?q + 1) * 2 ^ sh" by (simp only: unat_and_not_mask mult.commute)
    have "1 \<le> unat ?b" unfolding b by (simp add: Suc_le_eq)
    then have b1: "unat (?b - 1) = unat ?b - 1" "1 \<le> unat ?b" using unat_sub_no_wrap [of 1 ?b] by simp_all
    have "?b - 1 < end - 1 \<longleftrightarrow> unat ?b < unat end" unfolding word_less_nat_alt b1(1) e1 using b1(2) ae(1) by linarith
    then show ?thesis using b by (auto simp: addr_end_def Let_def)
  next
    case False
    have pl: "(2 :: nat) ^ sh < 2 ^ 64" using assms(2) by (rule power_strict_increasing) simp
    have "unat (addr + 2 ^ sh) = (unat addr + 2 ^ sh) mod 2 ^ 64" by (simp add: unat_word_ariths p)
    also have "\<dots> = unat addr + 2 ^ sh - 2 ^ 64" using False ae(3) pl by (simp add: le_mod_geq)
    finally have w: "unat (addr + 2 ^ sh) < 2 ^ sh" using ae(3) False by linarith
    then have "unat ?b = 0" by (simp only: unat_and_not_mask) simp
    then have b: "?b = 0" by (simp add: unat_eq_0)
    have "unat addr < (?q + 1) * 2 ^ sh" using dividend_less_div_times [of "2 ^ sh" "unat addr"] by simp
    moreover have "(2 :: nat) ^ 64 = 2 ^ (64 - sh) * 2 ^ sh" using assms(2) by (simp only: power_add [symmetric]) simp
    then obtain k where k: "(2 :: nat) ^ 64 = k * 2 ^ sh" ..
    ultimately have "k * 2 ^ sh < (?q + 2) * 2 ^ sh" using False by (simp add: algebra_simps)
    then have "k < ?q + 2" by (simp only: mult_less_cancel2)
    then have "k \<le> ?q + 1" by simp
    then have "k * 2 ^ sh \<le> (?q + 1) * 2 ^ sh" by (rule mult_le_mono1)
    then have "unat end \<le> (?q + 1) * 2 ^ sh" using k ae(2) by linarith
    moreover have "\<not> ?b - 1 < end - 1" unfolding b by (simp add: not_less word_order.extremum)
    ultimately show ?thesis by (simp add: addr_end_def Let_def min_def)
  qed
qed


text \<open>A page aligned address, and what the loops need to know of their step functions.\<close>

definition page_aligned :: "u64 \<Rightarrow> bool" where
  "page_aligned a \<longleftrightarrow> 4096 dvd unat a"

lemma word_unat_eq: "unat (a :: u64) = unat b \<Longrightarrow> a = b"
  by (simp add: word_unat_eq_iff)

lemma page_aligned_mask: "page_aligned a \<Longrightarrow> a AND PAGE_MASK = a"
  unfolding page_aligned_def by (rule word_unat_eq) (simp add: unat_page_align)

lemma addr_end_step:
  assumes "a < b" "page_aligned a" "page_aligned b" "12 \<le> sh" "sh < 64"
  shows "a < addr_end sh a b" "addr_end sh a b \<le> b" "page_aligned (addr_end sh a b)"
    "a \<le> c \<Longrightarrow> c < addr_end sh a b \<Longrightarrow> unat c div 2 ^ sh = unat a div 2 ^ sh"
proof -
  note u = unat_addr_end [OF assms(1,5)]
  have lt: "unat a < (unat a div 2 ^ sh + 1) * 2 ^ sh" using dividend_less_div_times [of "2 ^ sh" "unat a"] by simp
  show "a < addr_end sh a b" using assms(1) lt u by (simp add: word_less_nat_alt)
  show "addr_end sh a b \<le> b" using u by (simp add: word_le_nat_alt)
  have "(4096 :: nat) dvd 2 ^ sh" using le_imp_power_dvd [OF assms(4), of "2 :: nat"] by simp
  then show "page_aligned (addr_end sh a b)" using assms(3) u by (auto simp: page_aligned_def min_def)
  assume c: "a \<le> c" "c < addr_end sh a b"
  have "unat c < (unat a div 2 ^ sh + 1) * 2 ^ sh" using c(2) u by (simp add: word_less_nat_alt)
  moreover have "unat a div 2 ^ sh * 2 ^ sh \<le> unat c" using c(1) order_trans [OF div_times_less_eq_dividend] by (simp add: word_le_nat_alt)
  ultimately show "unat c div 2 ^ sh = unat a div 2 ^ sh" by (intro div_nat_eqI) (simp_all add: mult.commute)
qed

lemma pte_addr_end_step:
  assumes "a < b" "page_aligned a" "page_aligned b"
  shows "a < pte_addr_end a b" "pte_addr_end a b \<le> b" "page_aligned (pte_addr_end a b)"
    "a \<le> c \<Longrightarrow> c < pte_addr_end a b \<Longrightarrow> c AND PAGE_MASK = a"
proof -
  have "unat a < unat b" using assms(1) by (simp add: word_less_nat_alt)
  moreover obtain i j where ij: "unat a = 4096 * i" "unat b = 4096 * j" using assms(2,3) by (auto simp: page_aligned_def elim!: dvdE)
  ultimately have ab: "unat a + 4096 \<le> unat b" by simp
  then have u: "unat (a + 4096) = unat a + 4096" using unat_less_2p64 [of b] by (intro unat_add_eqI) simp_all
  show "a < pte_addr_end a b" "pte_addr_end a b \<le> b" "page_aligned (pte_addr_end a b)"
    using ab u ij(1) by (simp_all add: pte_addr_end_def word_less_nat_alt word_le_nat_alt page_aligned_def)
  assume c: "a \<le> c" "c < pte_addr_end a b"
  have "unat c div 4096 = i" using c u ij(1) by (intro div_nat_eqI) (simp_all add: pte_addr_end_def word_less_nat_alt word_le_nat_alt)
  then show "c AND PAGE_MASK = a"
    using ij(1) by (intro word_unat_eq) (simp add: unat_page_align)
qed


definition steps_in_range :: "(u64 \<Rightarrow> u64 \<Rightarrow> u64) \<Rightarrow> bool" where
  "steps_in_range f \<longleftrightarrow> (\<forall>a b. a < b \<longrightarrow> page_aligned a \<longrightarrow> page_aligned b \<longrightarrow> a < f a b \<and> f a b \<le> b \<and> page_aligned (f a b))"

lemma level_steps: "steps_in_range pgd_addr_end" "steps_in_range pud_addr_end" "steps_in_range pmd_addr_end"
    "steps_in_range pte_addr_end"
  unfolding steps_in_range_def addr_end_levels using addr_end_step pte_addr_end_step by simp_all

text \<open>
  The rule for a range loop: what the body does on every piece, composed over the range.
\<close>

lemma range_loop_rule:
  assumes f: "steps_in_range f" and end_aligned: "page_aligned end"
    and comp: "\<And>a b c s t u. a < b \<Longrightarrow> b < c \<Longrightarrow> R a b s t \<Longrightarrow> R b c t u \<Longrightarrow> R a c s u"
    and body: "\<And>a s. a < end \<Longrightarrow> page_aligned a \<Longrightarrow> Q s \<Longrightarrow>
      \<exists>t. body a (f a end) s = Some (f a end, t) \<and> R a (f a end) s t \<and> Q t"
  shows "addr < end \<Longrightarrow> page_aligned addr \<Longrightarrow> Q s \<Longrightarrow>
    \<exists>t. range_loop f body addr end s = Some (end, t) \<and> R addr end s t \<and> Q t"
proof (induction "unat end - unat addr" arbitrary: addr s rule: less_induct)
  case less
  let ?n = "f addr end"
  have n: "addr < ?n" "?n \<le> end" "page_aligned ?n" using f less.prems(1,2) end_aligned by (simp_all add: steps_in_range_def)
  obtain t where t: "body addr ?n s = Some (?n, t)" "R addr ?n s t" "Q t" using body [OF less.prems] by blast
  show ?case
  proof (cases "?n = end")
    case True
    then show ?thesis using t by (simp add: range_loop.simps [of f body addr])
  next
    case False
    then have lt: "?n < end" using n(2) by simp
    have "unat end - unat ?n < unat end - unat addr" using n(1) lt by (simp add: word_less_nat_alt)
    from less.hyps [OF this lt n(3) t(3)]
    obtain u where "range_loop f body ?n end t = Some (end, u)" "R ?n end t u" "Q u" by blast
    then show ?thesis using t False lt n(1) comp [OF n(1) lt] by (auto simp: range_loop.simps [of f body addr])
  qed
qed

lemma range_loop_err_rule:
  assumes f: "steps_in_range f" and end_aligned: "page_aligned end"
    and comp: "\<And>a b c s t u. a < b \<Longrightarrow> b < c \<Longrightarrow> R a b s t \<Longrightarrow> R b c t u \<Longrightarrow> R a c s u"
    and body: "\<And>a s. a < end \<Longrightarrow> page_aligned a \<Longrightarrow> Q s \<Longrightarrow>
      \<exists>t. body a (f a end) s = Some (0, t) \<and> R a (f a end) s t \<and> Q t"
  shows "addr < end \<Longrightarrow> page_aligned addr \<Longrightarrow> Q s \<Longrightarrow>
    \<exists>t. range_loop_err f body addr end s = Some (0, t) \<and> R addr end s t \<and> Q t"
proof (induction "unat end - unat addr" arbitrary: addr s rule: less_induct)
  case less
  let ?n = "f addr end"
  have n: "addr < ?n" "?n \<le> end" "page_aligned ?n" using f less.prems(1,2) end_aligned by (simp_all add: steps_in_range_def)
  obtain t where t: "body addr ?n s = Some (0, t)" "R addr ?n s t" "Q t" using body [OF less.prems] by blast
  show ?case
  proof (cases "?n = end")
    case True
    then show ?thesis using t by (simp add: range_loop_err.simps [of f body addr])
  next
    case False
    then have lt: "?n < end" using n(2) by simp
    have "unat end - unat ?n < unat end - unat addr" using n(1) lt by (simp add: word_less_nat_alt)
    from less.hyps [OF this lt n(3) t(3)]
    obtain u where "range_loop_err f body ?n end t = Some (0, u)" "R ?n end t u" "Q u" by blast
    then show ?thesis using t False lt n(1) comp [OF n(1) lt] by (auto simp: range_loop_err.simps [of f body addr])
  qed
qed

subsection \<open>Zapping a range\<close>

lemma pinv_same_maps:
  assumes inv: "pinv e L H B s" and m: "\<And>x p. maps_line e (s\<lparr>ptes := f\<rparr>) x p = maps_line e s x p"
  shows "pinv e L H B (s\<lparr>ptes := f\<rparr>)"
proof -
  have "rmap_ok e (s\<lparr>ptes := f\<rparr>) = rmap_ok e s" using m by (simp add: rmap_ok_def fun_eq_iff)
  then have "line_ok e L H B (s\<lparr>ptes := f\<rparr>) = line_ok e L H B s"
    by (simp add: line_ok_def meta_ok_def in_lru_def in_free_def fun_eq_iff Let_def)
  then show ?thesis
    using pinvD [OF inv] m by (simp add: pinv_def lines_ok_def sets_ok_def pset_wf_def evicts_ok_def ptes_ok_def)
qed

lemma pinv_clear_absent:
  assumes inv: "pinv e L H B s" and "\<not> pte_present (ptes s x)" "\<not> pte_present v"
  shows "pinv e L H B (pte_set x v s)"
  unfolding pte_set_def by (rule pinv_same_maps [OF inv]) (use assms(2,3) in \<open>simp add: maps_line_def\<close>)

text \<open>
  The effect of unmapping \<open>[a, b)\<close>: nothing in it leads to the cache any more, other entries are
  as before, an entry that has changed is empty, and no reverse mapping has been added.
\<close>

definition unmapped :: "penv \<Rightarrow> nat \<Rightarrow> u64 \<Rightarrow> u64 \<Rightarrow> pstate \<Rightarrow> pstate \<Rightarrow> bool" where
  "unmapped e mm a b s t \<longleftrightarrow>
     (\<forall>c. a \<le> c \<and> c < b \<longrightarrow> \<not> (\<exists>p. maps_line e t (pte_ptr e mm c) p)) \<and>
     (\<forall>x. (\<forall>c. a \<le> c \<and> c < b \<longrightarrow> x \<noteq> pte_ptr e mm c) \<longrightarrow> ptes t x = ptes s x) \<and>
     (\<forall>x. ptes t x = ptes s x \<or> ptes t x = 0) \<and>
     line t = line s \<and> net t = net s \<and> (\<forall>p. set (rmap (meta t p)) \<subseteq> set (rmap (meta s p)))"

lemma unmapped_comp:
  assumes ab: "a < b" "b < c" and "unmapped e mm a b s t" "unmapped e mm b c t u"
  shows "unmapped e mm a c s u"
proof -
  have tu: "ptes u x = ptes t x \<or> ptes u x = 0" and st: "ptes t x = ptes s x \<or> ptes t x = 0" for x
    using assms(3,4) unfolding unmapped_def by blast+
  have keep: "maps_line e u x p \<Longrightarrow> maps_line e t x p" for x p
    using tu [of x] by (auto simp: maps_line_def)
  have "\<not> (\<exists>p. maps_line e u (pte_ptr e mm d) p)" if "a \<le> d" "d < c" for d
  proof (cases "d < b")
    case True
    then show ?thesis using assms(3) that keep unfolding unmapped_def by blast
  next
    case False
    then show ?thesis using assms(4) that unfolding unmapped_def by simp
  qed
  moreover have "ptes u x = ptes s x" if out: "\<forall>d. a \<le> d \<and> d < c \<longrightarrow> x \<noteq> pte_ptr e mm d" for x
  proof -
    have "x \<noteq> pte_ptr e mm d" if "a \<le> d" "d < b" for d using out that(1) less_trans [OF that(2) ab(2)] by blast
    moreover have "x \<noteq> pte_ptr e mm d" if "b \<le> d" "d < c" for d using out order_trans [OF less_imp_le [OF ab(1)] that(1)] that(2) by blast
    ultimately have "ptes u x = ptes t x" "ptes t x = ptes s x" using assms(3,4) unfolding unmapped_def by blast+
    then show ?thesis by simp
  qed
  moreover have "ptes u x = ptes s x \<or> ptes u x = 0" for x
    using tu [of x] st [of x] by auto
  moreover have "set (rmap (meta u p)) \<subseteq> set (rmap (meta s p))" for p using assms(3,4) unfolding unmapped_def by blast
  ultimately show ?thesis using assms(3,4) unfolding unmapped_def by simp
qed


lemma unmapped_refl: "unmapped e mm a b s s" if "\<forall>c. a \<le> c \<and> c < b \<longrightarrow> \<not> (\<exists>p. maps_line e s (pte_ptr e mm c) p)"
  using that by (simp add: unmapped_def)

lemma pte_none_absent: "pte_none v \<Longrightarrow> \<not> pte_present v"
proof -
  assume "pte_none v"
  then have "\<not> bit (v AND NOT (PAGE_DIRTY OR PAGE_ACCESSED)) i" for i by (simp add: pte_none_def)
  from this [of 0] this [of 8] show ?thesis by (simp add: bit_simps bit_flag)
qed

text \<open>
  What zapping makes of an entry: it is empty, except that an entry with a frame outside the cache,
  which only draws a warning, stays.
\<close>

definition entry_cleared :: "penv \<Rightarrow> pte \<Rightarrow> pte \<Rightarrow> bool" where
  "entry_cleared e v v' \<longleftrightarrow> pte_none v' \<or> pte_present v \<and> pte_to_pcache_meta (geom e) v = None \<and> v' = v"

lemma zap_one_page:
  assumes inv: "pinv e {} {} None s" and a: "page_aligned a"
  shows "\<exists>t. zap_pte_retry n e mm a (pte_ptr e mm a) ptl s = Some t \<and> pinv e {} {} None t \<and> ptl_held t = ptl_held s \<and>
    (\<not> (\<exists>p. maps_line e t (pte_ptr e mm a) p)) \<and> (\<forall>x. x \<noteq> pte_ptr e mm a \<longrightarrow> ptes t x = ptes s x) \<and>
    (\<forall>x. ptes t x = ptes s x \<or> ptes t x = 0) \<and> line t = line s \<and> net t = net s \<and>
    (\<forall>p. set (rmap (meta t p)) \<subseteq> set (rmap (meta s p))) \<and> entry_cleared e (ptes s (pte_ptr e mm a)) (ptes t (pte_ptr e mm a))"
proof -
  let ?q = "pte_ptr e mm a" and ?z = "zap_pte_retry n e mm a (pte_ptr e mm a) ptl s"
  consider (none) "pte_none (ptes s ?q)" | (absent) "\<not> pte_none (ptes s ?q)" "\<not> pte_present (ptes s ?q)"
    | (line) p where "\<not> pte_none (ptes s ?q)" "maps_line e s ?q p"
    | (other) "\<not> pte_none (ptes s ?q)" "pte_present (ptes s ?q)" "pte_to_pcache_meta (geom e) (ptes s ?q) = None"
    unfolding maps_line_def by (cases "pte_to_pcache_meta (geom e) (ptes s ?q)") auto
  then show ?thesis
  proof cases
    case none
    then have "?z = Some s" by (simp add: zap_pte_retry.simps [of n] Let_def)
    then show ?thesis using inv none pte_none_absent [OF none] by (auto simp: maps_line_def entry_cleared_def)
  next
    case absent
    then have "?z = Some (pte_clear ?q s)" by (simp add: zap_pte_retry.simps [of n] Let_def del: pte_present_bit)
    moreover have "pinv e {} {} None (pte_clear ?q s)" unfolding pte_clear_def by (rule pinv_clear_absent [OF inv absent(2)]) simp
    ultimately show ?thesis by (simp add: pte_clear_def pte_set_def maps_line_def entry_cleared_def)
  next
    case (line p)
    obtain r where r: "r \<in> set (rmap (meta s p))" "page_table r = ?q" "p < nl e"
        "pcache_zap_pte e mm a (ptes s ?q) ?q ptl s = Some (0, zapped_line e p r s)"
      using pcache_zap_pte_eq [OF inv line(2) refl, of ptl] by (metis empty_iff)
    then have "?z = Some (zapped_line e p r s)"
      using line by (simp add: zap_pte_retry.simps [of n] Let_def maps_line_def del: pte_present_bit)
    moreover have "pinv e {} {} None (zapped_line e p r s)" by (rule pinv_zapped [OF inv r(3,1)]) simp
    moreover have "ptes (zapped_line e p r s) = (ptes s)(?q := 0)" "line (zapped_line e p r s) = line s"
        "net (zapped_line e p r s) = net s" "ptl_held (zapped_line e p r s) = ptl_held s"
        "set (rmap (meta (zapped_line e p r s) q)) \<subseteq> set (rmap (meta s q))" for q
      using r(2) set_remove1_subset [of r] by (simp_all add: zapped_line_def free_line_def set_ref_def unmap_line_def Let_def)
    ultimately show ?thesis by (simp add: maps_line_def entry_cleared_def)
  next
    case other
    then have "?z = Some s"
      by (simp add: zap_pte_retry.simps [of n] pcache_zap_pte_def Let_def del: pte_present_bit)
    then show ?thesis using inv other by (auto simp: maps_line_def entry_cleared_def)
  qed
qed

text \<open>Under an empty entry of an upper level there are no present entries.\<close>

definition levels_ok :: "pt_levels \<Rightarrow> penv \<Rightarrow> nat \<Rightarrow> pstate \<Rightarrow> bool" where
  "levels_ok w e mm s \<longleftrightarrow> (\<forall>a c.
     (pgd_none w mm a \<and> unat c div 2 ^ 39 = unat a div 2 ^ 39 \<or> pud_none w mm a \<and> unat c div 2 ^ 30 = unat a div 2 ^ 30 \<or>
      pmd_none w mm a \<and> unat c div 2 ^ 21 = unat a div 2 ^ 21) \<longrightarrow> \<not> pte_present (ptes s (pte_ptr e mm c)))"

lemma levels_okD:
  assumes "levels_ok w e mm s"
  shows "pgd_none w mm a \<Longrightarrow> unat c div 2 ^ 39 = unat a div 2 ^ 39 \<Longrightarrow> \<not> pte_present (ptes s (pte_ptr e mm c))"
    "pud_none w mm a \<Longrightarrow> unat c div 2 ^ 30 = unat a div 2 ^ 30 \<Longrightarrow> \<not> pte_present (ptes s (pte_ptr e mm c))"
    "pmd_none w mm a \<Longrightarrow> unat c div 2 ^ 21 = unat a div 2 ^ 21 \<Longrightarrow> \<not> pte_present (ptes s (pte_ptr e mm c))"
  using assms unfolding levels_ok_def by blast+

lemma levels_ok_ptes: "ptes t = ptes s \<Longrightarrow> levels_ok w e mm t = levels_ok w e mm s"
  by (simp only: levels_ok_def)

lemma levels_ok_frame [simp]:
  "levels_ok w e mm (s\<lparr>tlb_flushes := fl\<rparr>) = levels_ok w e mm s" "levels_ok w e mm (s\<lparr>ptl_held := h\<rparr>) = levels_ok w e mm s"
  by (rule levels_ok_ptes, simp)+

definition range_ready :: "pt_levels \<Rightarrow> penv \<Rightarrow> nat \<Rightarrow> nat set \<Rightarrow> pstate \<Rightarrow> bool" where
  "range_ready w e mm h s \<longleftrightarrow> pinv e {} {} None s \<and> ptl_held s = h \<and> levels_ok w e mm s \<and>
     (\<forall>a. pte_lockptr e mm a \<notin> h)"

lemma range_ready_step:
  assumes "range_ready w e mm h s" "pinv e {} {} None t" "ptl_held t = h"
    and "\<forall>x. ptes t x = ptes s x \<or> \<not> pte_present (ptes t x)"
  shows "range_ready w e mm h t"
proof -
  have "\<not> pte_present (ptes t x)" if "\<not> pte_present (ptes s x)" for x using assms(4) that by metis
  then have "levels_ok w e mm t" using assms(1) unfolding range_ready_def levels_ok_def by blast
  then show ?thesis using assms by (simp add: range_ready_def)
qed

lemma unmapped_absent:
  assumes "\<And>c. a \<le> c \<Longrightarrow> c < b \<Longrightarrow> \<not> pte_present (ptes s (pte_ptr e mm c))"
  shows "unmapped e mm a b s s"
  using assms by (auto simp: unmapped_def maps_line_def simp del: pte_present_bit)

text \<open>The addresses for which there is no last level table, and so no entry.\<close>

definition under_empty :: "pt_levels \<Rightarrow> nat \<Rightarrow> u64 \<Rightarrow> bool" where
  "under_empty w mm c \<longleftrightarrow> (\<exists>a. pgd_none w mm a \<and> unat c div 2 ^ 39 = unat a div 2 ^ 39 \<or>
     pud_none w mm a \<and> unat c div 2 ^ 30 = unat a div 2 ^ 30 \<or> pmd_none w mm a \<and> unat c div 2 ^ 21 = unat a div 2 ^ 21)"

text \<open>The full effect of zapping: \<open>unmapped\<close>, and every entry there is gets cleared.\<close>

definition wiped :: "pt_levels \<Rightarrow> penv \<Rightarrow> nat \<Rightarrow> u64 \<Rightarrow> u64 \<Rightarrow> pstate \<Rightarrow> pstate \<Rightarrow> bool" where
  "wiped w e mm a b s t \<longleftrightarrow> unmapped e mm a b s t \<and> (\<forall>c. a \<le> c \<and> c < b \<longrightarrow>
     under_empty w mm c \<and> ptes t (pte_ptr e mm c) = ptes s (pte_ptr e mm c) \<or>
     entry_cleared e (ptes s (pte_ptr e mm c)) (ptes t (pte_ptr e mm c)))"

lemma entry_cleared_zero [simp]: "entry_cleared e v 0" "entry_cleared e 0 v \<longleftrightarrow> pte_none v"
  by (auto simp: entry_cleared_def)

lemma wiped_comp:
  assumes ab: "a < b" "b < c" and "wiped w e mm a b s t" "wiped w e mm b c t u"
  shows "wiped w e mm a c s u"
proof -
  have un: "unmapped e mm a b s t" "unmapped e mm b c t u" using assms(3,4) by (simp_all add: wiped_def)
  have tu: "ptes u x = ptes t x \<or> ptes u x = 0" and st: "ptes t x = ptes s x \<or> ptes t x = 0" for x
    using un unfolding unmapped_def by blast+
  have "under_empty w mm d \<and> ptes u (pte_ptr e mm d) = ptes s (pte_ptr e mm d) \<or>
     entry_cleared e (ptes s (pte_ptr e mm d)) (ptes u (pte_ptr e mm d))" if d: "a \<le> d" "d < c" for d
  proof (cases "d < b")
    case True
    then have "under_empty w mm d \<and> ptes t (pte_ptr e mm d) = ptes s (pte_ptr e mm d) \<or>
      entry_cleared e (ptes s (pte_ptr e mm d)) (ptes t (pte_ptr e mm d))" using assms(3) d(1) by (simp add: wiped_def)
    then show ?thesis using tu [of "pte_ptr e mm d"] by auto
  next
    case False
    then have "under_empty w mm d \<and> ptes u (pte_ptr e mm d) = ptes t (pte_ptr e mm d) \<or>
      entry_cleared e (ptes t (pte_ptr e mm d)) (ptes u (pte_ptr e mm d))" using assms(4) d(2) by (simp add: wiped_def)
    then show ?thesis using st [of "pte_ptr e mm d"] by (auto simp: entry_cleared_def)
  qed
  then show ?thesis using unmapped_comp [OF ab un] by (simp add: wiped_def)
qed

lemma wiped_skip:
  assumes "\<And>c. a \<le> c \<Longrightarrow> c < b \<Longrightarrow> under_empty w mm c \<and> \<not> pte_present (ptes s (pte_ptr e mm c))"
  shows "wiped w e mm a b s s"
  using assms unmapped_absent [of a b s e mm] by (simp add: wiped_def)

lemma zap_pte_range_ok:
  assumes ab: "a < b" "page_aligned a" "page_aligned b" and r: "range_ready w e mm h s"
  shows "\<exists>t. zap_pte_range e mm a b s = Some (b, t) \<and> wiped w e mm a b s t \<and> range_ready w e mm h t"
proof -
  let ?l = "pte_lockptr e mm a"
  let ?body = "\<lambda>a n s. do { s \<leftarrow> zap_pte_retry (spin_rounds e) e mm a (pte_ptr e mm a) ?l s; Some (n, s) }"
  let ?Q = "\<lambda>s. pinv e {} {} None s \<and> ptl_held s = insert ?l h"
  let ?s = "s\<lparr>ptl_held := insert ?l h\<rparr>"
  have inv: "pinv e {} {} None s" and h: "ptl_held s = h" "?l \<notin> h" using r by (simp_all add: range_ready_def)
  have "\<exists>t. range_loop pte_addr_end ?body a b ?s = Some (b, t) \<and> wiped w e mm a b ?s t \<and> ?Q t"
  proof (rule range_loop_rule [where R = "wiped w e mm" and Q = ?Q])
    fix c u assume c: "c < b" "page_aligned c" "?Q u"
    obtain t where t: "zap_pte_retry (spin_rounds e) e mm c (pte_ptr e mm c) ?l u = Some t" "pinv e {} {} None t" "ptl_held t = ptl_held u"
        "\<not> (\<exists>p. maps_line e t (pte_ptr e mm c) p)" "\<forall>x. x \<noteq> pte_ptr e mm c \<longrightarrow> ptes t x = ptes u x"
        "\<forall>x. ptes t x = ptes u x \<or> ptes t x = 0" "line t = line u" "net t = net u" "\<forall>p. set (rmap (meta t p)) \<subseteq> set (rmap (meta u p))"
        "entry_cleared e (ptes u (pte_ptr e mm c)) (ptes t (pte_ptr e mm c))"
      using zap_one_page [OF _ c(2), of e u "spin_rounds e" mm ?l] c(3) by blast
    have same: "pte_ptr e mm d = pte_ptr e mm c" if "c \<le> d" "d < pte_addr_end c b" for d
      using page_walkD(1) [OF pinvD(1) [OF inv], of mm d] pte_addr_end_step(4) [OF c(1,2) ab(3) that] by simp
    have "c < pte_addr_end c b" by (rule pte_addr_end_step(1) [OF c(1,2) ab(3)])
    then have "unmapped e mm c (pte_addr_end c b) u t"
      using t(4-9) same unfolding unmapped_def by (metis order_refl)
    then have "wiped w e mm c (pte_addr_end c b) u t" using t(10) same by (simp add: wiped_def)
    then show "\<exists>t. ?body c (pte_addr_end c b) u = Some (pte_addr_end c b, t) \<and> wiped w e mm c (pte_addr_end c b) u t \<and> ?Q t"
      using t(1-3) c(3) by simp
  qed (use ab inv level_steps wiped_comp in auto)
  then obtain t where t: "range_loop pte_addr_end ?body a b ?s = Some (b, t)" "wiped w e mm a b ?s t" "?Q t" by blast
  let ?t = "spin_unlock_ptl ?l t"
  have "zap_pte_range e mm a b s = Some (b, ?t)" using t(1) h by (simp add: zap_pte_range_def spin_lock_ptl_def)
  moreover have wd: "wiped w e mm a b s ?t" using t(2) by (simp add: wiped_def unmapped_def spin_unlock_ptl_def maps_line_def)
  then have u: "unmapped e mm a b s ?t" by (simp add: wiped_def)
  moreover have z: "\<not> pte_present 0" by simp
  have "range_ready w e mm h ?t"
  proof (rule range_ready_step [OF r])
    show "\<forall>x. ptes ?t x = ptes s x \<or> \<not> pte_present (ptes ?t x)" using u z unfolding unmapped_def by metis
  qed (use t(3) h(2) in \<open>auto simp: spin_unlock_ptl_def\<close>)
  ultimately show ?thesis using wd by blast
qed


text \<open>One upper level: an empty entry is skipped, another one handed to the level below.\<close>

lemma level_walk:
  assumes comp: "\<And>a b c s t u. a < b \<Longrightarrow> b < c \<Longrightarrow> R a b s t \<Longrightarrow> R b c t u \<Longrightarrow> R a c s u"
    and skip: "\<And>a b s. (\<And>c. a \<le> c \<Longrightarrow> c < b \<Longrightarrow> K c s) \<Longrightarrow> R a b s s"
    and sh: "12 \<le> sh" "sh < 64"
    and none: "\<And>a c s. N a \<Longrightarrow> Q s \<Longrightarrow> unat c div 2 ^ sh = unat a div 2 ^ sh \<Longrightarrow> K c s"
    and inner: "\<And>a b s. a < b \<Longrightarrow> page_aligned a \<Longrightarrow> page_aligned b \<Longrightarrow> Q s \<Longrightarrow>
      \<exists>t. inner a b s = Some (b, t) \<and> R a b s t \<and> Q t"
    and ab: "a < b" "page_aligned a" "page_aligned b" and q: "Q s"
  shows "\<exists>t. range_loop (addr_end sh) (\<lambda>a n s. if N a then Some (n, s) else inner a n s) a b s = Some (b, t) \<and>
    R a b s t \<and> Q t"
proof (rule range_loop_rule [where R = R and Q = Q])
  show "steps_in_range (addr_end sh)" using addr_end_step sh by (simp add: steps_in_range_def)
  fix c u assume c: "c < b" "page_aligned c" "Q u"
  note st = addr_end_step [OF c(1,2) ab(3) sh]
  show "\<exists>t. (if N c then Some (addr_end sh c b, u) else inner c (addr_end sh c b) u) = Some (addr_end sh c b, t) \<and>
      R c (addr_end sh c b) u t \<and> Q t"
  proof (cases "N c")
    case True
    have "R c (addr_end sh c b) u u"
      by (rule skip) (use none [OF True c(3)] st(4) in blast)
    then show ?thesis using True c(3) by simp
  next
    case False
    then show ?thesis using inner [OF st(1) c(2) st(3) c(3)] by simp
  qed
qed (use ab q comp in auto)

lemmas zap_level = level_walk [where R = "wiped w e mm" and K = "\<lambda>c s. under_empty w mm c \<and> \<not> pte_present (ptes s (pte_ptr e mm c))" for w e mm,
  OF wiped_comp wiped_skip]

lemma range_readyD: "range_ready w e mm h s \<Longrightarrow> levels_ok w e mm s"
  by (simp add: range_ready_def)

lemma empty_levels:
  assumes "range_ready w e mm h s"
  shows "pgd_none w mm a \<Longrightarrow> unat c div 2 ^ 39 = unat a div 2 ^ 39 \<Longrightarrow> under_empty w mm c \<and> \<not> pte_present (ptes s (pte_ptr e mm c))"
    "pud_none w mm a \<Longrightarrow> unat c div 2 ^ 30 = unat a div 2 ^ 30 \<Longrightarrow> under_empty w mm c \<and> \<not> pte_present (ptes s (pte_ptr e mm c))"
    "pmd_none w mm a \<Longrightarrow> unat c div 2 ^ 21 = unat a div 2 ^ 21 \<Longrightarrow> under_empty w mm c \<and> \<not> pte_present (ptes s (pte_ptr e mm c))"
  using levels_okD [OF range_readyD [OF assms]] by (auto simp: under_empty_def simp del: pte_present_bit)

lemma zap_pmd_range_ok:
  assumes "a < b" "page_aligned a" "page_aligned b" "range_ready w e mm h s"
  shows "\<exists>t. zap_pmd_range w e mm a b s = Some (b, t) \<and> wiped w e mm a b s t \<and> range_ready w e mm h t"
  unfolding zap_pmd_range_def addr_end_levels
  by (rule zap_level [where Q = "range_ready w e mm h"]; (rule assms | erule (3) zap_pte_range_ok | erule (2) empty_levels | simp))

lemma zap_pud_range_ok:
  assumes "a < b" "page_aligned a" "page_aligned b" "range_ready w e mm h s"
  shows "\<exists>t. zap_pud_range w e mm a b s = Some (b, t) \<and> wiped w e mm a b s t \<and> range_ready w e mm h t"
  unfolding zap_pud_range_def addr_end_levels
  by (rule zap_level [where Q = "range_ready w e mm h"]; (rule assms | erule (3) zap_pmd_range_ok | erule (2) empty_levels | simp))

lemma unmap_page_range_ok:
  assumes "a < b" "page_aligned a" "page_aligned b" "range_ready w e mm h s"
  shows "\<exists>t. unmap_page_range w e mm a b s = Some t \<and> unmapped e mm a b s t \<and> range_ready w e mm h t \<and>
    wiped w e mm a b s t"
proof -
  have "\<exists>t. range_loop (addr_end 39) (\<lambda>a n s. if pgd_none w mm a then Some (n, s) else zap_pud_range w e mm a n s) a b s = Some (b, t) \<and>
      wiped w e mm a b s t \<and> range_ready w e mm h t"
    by (rule zap_level [where Q = "range_ready w e mm h"]; (rule assms | erule (3) zap_pud_range_ok | erule (2) empty_levels | simp))
  then show ?thesis using assms(1) by (auto simp: unmap_page_range_def addr_end_levels wiped_def)
qed

subsection \<open>Freeing a range\<close>

text \<open>The effect of freeing \<open>[a, b)\<close>: no entry in it is present, other entries are as before.\<close>

definition freed :: "penv \<Rightarrow> nat \<Rightarrow> u64 \<Rightarrow> u64 \<Rightarrow> pstate \<Rightarrow> pstate \<Rightarrow> bool" where
  "freed e mm a b s t \<longleftrightarrow> (\<exists>f. t = s\<lparr>ptes := f\<rparr> \<and> (\<forall>c. a \<le> c \<and> c < b \<longrightarrow> \<not> pte_present (f (pte_ptr e mm c))) \<and>
     (\<forall>x. f x = ptes s x \<or> f x = 0 \<and> (\<exists>c. a \<le> c \<and> c < b \<and> x = pte_ptr e mm c)))"

lemma freed_comp:
  assumes ab: "a < b" "b < c" and "freed e mm a b s t" "freed e mm b c t u"
  shows "freed e mm a c s u"
proof -
  obtain f g where t: "t = s\<lparr>ptes := f\<rparr>" "\<forall>c. a \<le> c \<and> c < b \<longrightarrow> \<not> pte_present (f (pte_ptr e mm c))"
      "\<forall>x. f x = ptes s x \<or> f x = 0 \<and> (\<exists>c. a \<le> c \<and> c < b \<and> x = pte_ptr e mm c)"
    and u: "u = t\<lparr>ptes := g\<rparr>" "\<forall>d. b \<le> d \<and> d < c \<longrightarrow> \<not> pte_present (g (pte_ptr e mm d))"
      "\<forall>x. g x = f x \<or> g x = 0 \<and> (\<exists>d. b \<le> d \<and> d < c \<and> x = pte_ptr e mm d)"
    using assms(3,4) unfolding freed_def by auto
  have g: "\<not> pte_present (g (pte_ptr e mm d))" if d: "a \<le> d" "d < c" for d
  proof (cases "d < b")
    case True
    then have "\<not> pte_present (f (pte_ptr e mm d))" using t(2) d(1) by blast
    moreover have "g (pte_ptr e mm d) = f (pte_ptr e mm d) \<or> g (pte_ptr e mm d) = 0" using u(3) by blast
    ultimately show ?thesis by auto
  next
    case False
    then show ?thesis using u(2) d(2) by (simp add: not_less)
  qed
  have "g x = ptes s x \<or> g x = 0 \<and> (\<exists>d. a \<le> d \<and> d < c \<and> x = pte_ptr e mm d)" for x
    using t(3) [rule_format, of x] u(3) [rule_format, of x] less_trans [OF _ ab(2)] order_trans [OF less_imp_le [OF ab(1)]] by metis
  then show ?thesis unfolding freed_def using t(1) u(1) g by auto
qed

lemma freed_absent:
  assumes "\<And>c. a \<le> c \<Longrightarrow> c < b \<Longrightarrow> \<not> pte_present (ptes s (pte_ptr e mm c))"
  shows "freed e mm a b s s"
  unfolding freed_def by (rule exI [of _ "ptes s"]) (use assms in simp)

lemmas free_level = level_walk [where R = "freed e mm" and K = "\<lambda>c s. \<not> pte_present (ptes s (pte_ptr e mm c))" for e mm,
  OF freed_comp freed_absent]

definition free_ready :: "pt_levels \<Rightarrow> penv \<Rightarrow> nat \<Rightarrow> nat set \<Rightarrow> pstate \<Rightarrow> bool" where
  "free_ready w e mm h s \<longleftrightarrow> env_ok e \<and> ptl_held s = h \<and> levels_ok w e mm s \<and> (\<forall>a. pte_lockptr e mm a \<notin> h)"

lemma free_readyD: "free_ready w e mm h s \<Longrightarrow> levels_ok w e mm s"
  by (simp add: free_ready_def)

lemmas free_empty_levels = levels_okD [OF free_readyD]

lemma free_ready_freed: "free_ready w e mm h s \<Longrightarrow> freed e mm a b s t \<Longrightarrow> free_ready w e mm h t"
proof -
  assume r: "free_ready w e mm h s" and f: "freed e mm a b s t"
  obtain f where t: "t = s\<lparr>ptes := f\<rparr>" "\<forall>x. f x = ptes s x \<or> f x = 0" using f unfolding freed_def by blast
  have "\<not> pte_present (f x)" if "\<not> pte_present (ptes s x)" for x using t(2) [rule_format, of x] that by auto
  then show ?thesis using r unfolding free_ready_def levels_ok_def t(1) by (simp del: pte_present_bit) blast
qed

lemma free_pte_range_ok:
  assumes ab: "a < b" "page_aligned a" "page_aligned b" and r: "free_ready w e mm h s"
  shows "\<exists>t. (do { s \<leftarrow> free_pte_range e mm a b s; Some (b, s) }) = Some (b, t) \<and> freed e mm a b s t \<and> free_ready w e mm h t"
proof -
  let ?l = "pte_lockptr e mm a" and ?body = "\<lambda>a n s. Some (n, pte_clear (pte_ptr e mm a) s)"
  let ?s = "s\<lparr>ptl_held := insert ?l h\<rparr>"
  have walk: "env_ok e" and h: "ptl_held s = h" "?l \<notin> h" using r by (simp_all add: free_ready_def)
  have "\<exists>t. range_loop pte_addr_end ?body a b ?s = Some (b, t) \<and> freed e mm a b ?s t \<and> True"
  proof (rule range_loop_rule [where R = "freed e mm" and Q = "\<lambda>_. True"])
    fix c and u :: pstate assume c: "c < b" "page_aligned c"
    have same: "pte_ptr e mm d = pte_ptr e mm c" if "c \<le> d" "d < pte_addr_end c b" for d
      using page_walkD(1) [OF walk, of mm d] pte_addr_end_step(4) [OF c(1,2) ab(3) that] by simp
    have lt: "c < pte_addr_end c b" by (rule pte_addr_end_step(1) [OF c(1,2) ab(3)])
    let ?f = "(ptes u)(pte_ptr e mm c := 0)"
    have "\<not> pte_present (?f (pte_ptr e mm d))" if "c \<le> d \<and> d < pte_addr_end c b" for d
      unfolding same [OF conjunct1 [OF that] conjunct2 [OF that]] by simp
    moreover have "?f x = ptes u x \<or> ?f x = 0 \<and> (\<exists>d\<ge>c. d < pte_addr_end c b \<and> x = pte_ptr e mm d)" for x
      using lt by (cases "x = pte_ptr e mm c") auto
    ultimately have "freed e mm c (pte_addr_end c b) u (pte_clear (pte_ptr e mm c) u)"
      unfolding freed_def pte_clear_def pte_set_def by blast
    then show "\<exists>t. ?body c (pte_addr_end c b) u = Some (pte_addr_end c b, t) \<and> freed e mm c (pte_addr_end c b) u t \<and> True"
      by simp
  qed (use ab level_steps freed_comp in auto)
  then obtain t where t: "range_loop pte_addr_end ?body a b ?s = Some (b, t)" "freed e mm a b ?s t" by blast
  let ?t = "spin_unlock_ptl ?l t"
  have "free_pte_range e mm a b s = Some ?t" using t(1) h by (simp add: free_pte_range_def spin_lock_ptl_def)
  moreover have u: "freed e mm a b s ?t" using t(2) h by (auto simp: freed_def spin_unlock_ptl_def)
  ultimately show ?thesis using free_ready_freed [OF r u] by simp
qed

lemma free_pmd_range_ok:
  assumes "a < b" "page_aligned a" "page_aligned b" "free_ready w e mm h s"
  shows "\<exists>t. (do { s \<leftarrow> free_pmd_range w e mm a b s; Some (b, s) }) = Some (b, t) \<and> freed e mm a b s t \<and> free_ready w e mm h t"
proof -
  have "\<exists>t. range_loop (addr_end 21) (\<lambda>a n s. if pmd_none w mm a then Some (n, s)
      else do { s \<leftarrow> free_pte_range e mm a n s; Some (n, s) }) a b s = Some (b, t) \<and> freed e mm a b s t \<and> free_ready w e mm h t"
    by (rule free_level [where Q = "free_ready w e mm h"]; (rule assms | erule (3) free_pte_range_ok | erule (2) free_empty_levels | simp))
  then show ?thesis by (auto simp: free_pmd_range_def addr_end_levels)
qed

lemma free_pud_range_ok:
  assumes "a < b" "page_aligned a" "page_aligned b" "free_ready w e mm h s"
  shows "\<exists>t. (do { s \<leftarrow> free_pud_range w e mm a b s; Some (b, s) }) = Some (b, t) \<and> freed e mm a b s t \<and> free_ready w e mm h t"
proof -
  have "\<exists>t. range_loop (addr_end 30) (\<lambda>a n s. if pud_none w mm a then Some (n, s)
      else do { s \<leftarrow> free_pmd_range w e mm a n s; Some (n, s) }) a b s = Some (b, t) \<and> freed e mm a b s t \<and> free_ready w e mm h t"
    by (rule free_level [where Q = "free_ready w e mm h"]; (rule assms | erule (3) free_pmd_range_ok | erule (2) free_empty_levels | simp))
  then show ?thesis by (auto simp: free_pud_range_def addr_end_levels)
qed

lemma free_pgd_range_ok:
  assumes "a < b" "page_aligned a" "page_aligned b" "free_ready w e mm h s"
  shows "\<exists>t. free_pgd_range w e mm a b s = Some (flush_tlb_mm_range mm a b t) \<and> freed e mm a b s t \<and> free_ready w e mm h t"
proof -
  have "\<exists>t. range_loop (addr_end 39) (\<lambda>a n s. if pgd_none w mm a then Some (n, s)
      else do { s \<leftarrow> free_pud_range w e mm a n s; Some (n, s) }) a b s = Some (b, t) \<and> freed e mm a b s t \<and> free_ready w e mm h t"
    by (rule free_level [where Q = "free_ready w e mm h"]; (rule assms | erule (3) free_pud_range_ok | erule (2) free_empty_levels | simp))
  moreover have "\<not> b - 1 < a" using assms(1) by (simp add: not_less word_le_sub1 inc_le word_le_nat_alt word_less_nat_alt unat_sub_if_size)
  ultimately show ?thesis by (auto simp: free_pgd_range_def addr_end_levels)
qed

text \<open>Releasing a range: nothing in it is present any more, and nothing else has changed in the tables.\<close>

lemma release_pgtable_ok:
  assumes ab: "a < b" "page_aligned a" "page_aligned b" and mm: "mm = task_mm (task e tsk)" and r: "range_ready w e mm h s"
  shows "\<exists>t. release_pgtable w e tsk a b s = Some t \<and> range_ready w e mm h t \<and>
    (\<forall>c. a \<le> c \<and> c < b \<longrightarrow> \<not> pte_present (ptes t (pte_ptr e mm c))) \<and> unmapped e mm a b s t"
proof -
  obtain u where u: "unmap_page_range w e mm a b s = Some u" "unmapped e mm a b s u" "range_ready w e mm h u"
    using unmap_page_range_ok [OF ab r] by blast
  then have inv: "pinv e {} {} None u" and fr: "free_ready w e mm h u"
    by (auto simp: range_ready_def free_ready_def dest: pinvD(1))
  obtain v where v: "free_pgd_range w e mm a b u = Some (flush_tlb_mm_range mm a b v)" "freed e mm a b u v" "free_ready w e mm h v"
    using free_pgd_range_ok [OF ab fr] by blast
  obtain f where f: "v = u\<lparr>ptes := f\<rparr>" "\<forall>c. a \<le> c \<and> c < b \<longrightarrow> \<not> pte_present (f (pte_ptr e mm c))"
      "\<forall>x. f x = ptes u x \<or> f x = 0 \<and> (\<exists>c. a \<le> c \<and> c < b \<and> x = pte_ptr e mm c)"
    using v(2) unfolding freed_def by blast
  have mu: "maps_line e (u\<lparr>ptes := f\<rparr>) x p = maps_line e u x p" for x p
  proof (cases "f x = ptes u x")
    case False
    then obtain c where c: "f x = 0" "a \<le> c" "c < b" "x = pte_ptr e mm c" using f(3) by blast
    then have "\<not> maps_line e u x p" using u(2) unfolding unmapped_def by blast
    then show ?thesis using c(1) by (simp add: maps_line_def)
  qed (simp add: maps_line_def)
  then have iv: "pinv e {} {} None v" unfolding f(1) by (rule pinv_same_maps [OF inv])
  let ?t = "flush_tlb_mm_range mm a b v"
  have "release_pgtable w e tsk a b s = Some ?t" using u(1) v(1) mm by (simp add: release_pgtable_def)
  moreover have "range_ready w e mm h ?t"
    using iv v(3) by (simp add: range_ready_def free_ready_def flush_tlb_mm_range_def)
  moreover have "ptes ?t x = ptes s x" if "\<forall>c. a \<le> c \<and> c < b \<longrightarrow> x \<noteq> pte_ptr e mm c" for x
  proof -
    have "ptes u x = ptes s x" using u(2) that unfolding unmapped_def by blast
    moreover have "f x = ptes u x" using f(3) that by blast
    ultimately show ?thesis by (simp add: flush_tlb_mm_range_def f(1))
  qed
  moreover have "ptes ?t x = ptes s x \<or> ptes ?t x = 0" for x
    using f(3) u(2) unfolding unmapped_def flush_tlb_mm_range_def f(1) by (simp, metis)
  moreover have "\<not> (\<exists>p. maps_line e ?t (pte_ptr e mm c) p)" if "a \<le> c \<and> c < b" for c
    using mu u(2) that unfolding unmapped_def f(1) by (simp add: flush_tlb_mm_range_def maps_line_def)
  ultimately show ?thesis using f u(2) by (simp add: flush_tlb_mm_range_def unmapped_def del: pte_present_bit)
qed

end
