(* ===== verification/Pcache_Handler.thy ===== *)
theory Pcache_Handler
  imports Pcache_Pgtable
begin

section \<open>The fault handler\<close>

text \<open>
  \<open>pcache_handle_fault\<close> of \<open>fault.c\<close> as a whole, on top of the case lemmas of filling
  and of resolving write protection faults: every result keeps the invariant and releases the locks.
\<close>

declare wait_eviction.simps [simp del]

lemma no_eviction_in_flight:
  assumes inv: "pinv e L H None s"
  shows "wait_eviction n e address s = Some s"
proof -
  let ?k = "user_vaddr_to_pcache_set (geom e) address"
  have "?k < nsets e" by (rule vaddr_set_less [OF pinvD(1) [OF inv]])
  then have "nr_eviction_entries (pset s ?k) = 0" using pinvD(4) [OF inv] by (simp add: evicts_ok_def evict_list_of_def)
  then show ?thesis by (simp add: wait_eviction.simps [of n] pset_find_eviction_def Let_def)
qed

text \<open>What the handler is called with: the thread that faults, on its own address space.\<close>

definition fault_context :: "penv \<Rightarrow> nat \<Rightarrow> bool" where
  "fault_context e mm \<longleftrightarrow> others_ok e \<and> 0 < alloc_rounds e \<and> mm = task_mm (task e (current e)) \<and>
     thread_group_leader e (group_leader (task e (current e)))"

lemma unlocked_victim: "ptl_held s = {} \<Longrightarrow> victim_unlocked e k s"
  by (simp add: victim_unlocked_def split: option.split)

text \<open>An entry that is not present is filled; nothing can go wrong but the named errors.\<close>

lemma absent_fault:
  assumes inv: "pinv e {} {} None s" and ctx: "fault_context e mm" and lk: "ptl_held s = {}"
    and ab: "\<not> pte_present (ptes s (pte_ptr e mm address))"
  obtains ret t where "pcache_handle_pte_fault e mm address (pte_ptr e mm address) flags s = Some (ret, t)"
    "pinv e {} {} None t" "ptl_held t = {}" "ret \<in> {0, VM_FAULT_OOM, VM_FAULT_SIGBUS, VM_FAULT_SIGSEGV}"
proof -
  let ?ptep = "pte_ptr e mm address" and ?k = "user_vaddr_to_pcache_set (geom e) address"
  have c: "others_ok e" "0 < alloc_rounds e" "thread_group_leader e (group_leader (task e (current e)))"
    using ctx by (simp_all add: fault_context_def)
  note pre = inv c(1,2) refl unlocked_victim [OF lk] _ ab c(3)
  have lk': "pte_lockptr e mm address \<notin> ptl_held s" using lk by simp
  have fill: "\<exists>ret t. pcache_do_fill_page e mm address (ptes s ?ptep) flags s = Some (ret, t) \<and>
      pinv e {} {} None t \<and> ptl_held t = {} \<and> ret \<in> {0, VM_FAULT_OOM, VM_FAULT_SIGSEGV}"
    unfolding pcache_do_fill_page_def
    by (rule remote.common_fill_cases [OF inv c(1,2) refl unlocked_victim [OF lk] lk' ab c(3)]) (use lk in auto)
  have zero: "\<exists>ret t. common_do_fill_page e mm address (ptes s ?ptep) flags (pcache_do_zerofill e) RMAP_ZEROFILL DISABLE_PIGGYBACK s =
      Some (ret, t) \<and> pinv e {} {} None t \<and> ptl_held t = {} \<and> ret \<in> {0, VM_FAULT_OOM, VM_FAULT_SIGSEGV}"
    by (rule zero.common_fill_cases [OF inv c(1,2) refl unlocked_victim [OF lk] lk' ab c(3)]) (use lk in auto)
  show ?thesis
  proof (cases "pte_none (ptes s ?ptep)")
    case True
    then show ?thesis using that fill ab no_eviction_in_flight [OF inv]
      by (fastforce simp: pcache_handle_pte_fault_def Let_def simp del: pte_present_bit)
  next
    case False
    have "pcache_handle_pte_fault e mm address ?ptep flags s = pcache_do_zerofill_page e mm address (ptes s ?ptep) flags s"
      using False ab by (simp add: pcache_handle_pte_fault_def Let_def del: pte_present_bit)
    then show ?thesis
      using that zero inv lk by (cases "pte_zerofill (ptes s ?ptep)") (auto simp: pcache_do_zerofill_page_def)
  qed
qed

text \<open>A present entry: the fault is spurious, or it is a write protection fault.\<close>

lemma present_fault:
  assumes inv: "pinv e {} {} None s" and ctx: "fault_context e mm" and lk: "ptl_held s = {}"
    and pr: "pte_present (ptes s (pte_ptr e mm address))"
    and res: "pcache_handle_pte_fault e mm address (pte_ptr e mm address) flags s = Some (ret, t)"
  shows "pinv e {} {} None t \<and> ptl_held t = {}"
proof -
  let ?ptep = "pte_ptr e mm address" and ?l = "pte_lockptr e mm address" and ?k = "user_vaddr_to_pcache_set (geom e) address"
  have c: "others_ok e" "0 < alloc_rounds e" "mm = task_mm (task e (current e))" "thread_group_leader e (group_leader (task e (current e)))"
    using ctx by (simp_all add: fault_context_def)
  have o: "pinv e {} {} None (others e s)" "ptl_held (others e s) = {}"
    using c(1) inv lk unfolding others_ok_def by metis+
  let ?u = "(others e s)\<lparr>ptl_held := {?l}\<rparr>"
  have u: "pinv e {} {} None ?u" using o by simp
  have lock: "spin_lock_ptl ?l (others e s) = Some ?u" using o(2) by (simp add: spin_lock_ptl_def)
  show ?thesis
  proof (cases "ptes ?u ?ptep = ptes s ?ptep \<and> flags AND FAULT_FLAG_WRITE \<noteq> 0 \<and> \<not> pte_write (ptes s ?ptep)")
    case False
    then have "t = spin_unlock_ptl ?l ?u"
      using res pr lock by (auto simp: pcache_handle_pte_fault_def Let_def simp del: pte_present_bit pte_write_bit split: if_splits)
    then show ?thesis using o by (simp add: spin_unlock_ptl_def)
  next
    case True
    have wp: "pcache_do_wp_page e mm address ?ptep ?l (ptes ?u ?ptep) ?u = Some (ret, t)"
      using res pr lock True by (auto simp: pcache_handle_pte_fault_def Let_def simp del: pte_present_bit pte_write_bit)
    show ?thesis
    proof (cases "pte_to_pcache_meta (geom e) (ptes ?u ?ptep)")
      case None
      then have "t = spin_unlock_ptl ?l ?u" using wp by (simp add: pcache_do_wp_page_def)
      then show ?thesis using o by (simp add: spin_unlock_ptl_def)
    next
      case (Some old)
      have m: "maps_line e ?u ?ptep old" using Some True pr by (simp add: maps_line_def del: pte_present_bit)
      have ptl: "victim_unlocked e ?k (SetPcache PC_locked old ?u)" if "mapcount (meta ?u old) \<noteq> 1"
        using pcache_do_wp_page_deadlock [OF u _ m refl that refl, of ?l] wp by auto
      show ?thesis
        by (rule pcache_do_wp_page_cases [OF u _ m refl c(3,2) refl ptl c(4), of ?l]) (use wp in auto)
    qed
  qed
qed

lemma pcache_handle_fault_inv:
  assumes "pinv e {} {} None s" "fault_context e mm" "ptl_held s = {}" "pcache_handle_fault e mm address flags s = Some (ret, t)"
  shows "pinv e {} {} None t \<and> ptl_held t = {}"
proof (cases "pte_alloc_ok e mm address")
  case False
  then show ?thesis using assms by (simp add: pcache_handle_fault_def)
next
  case True
  then have res: "pcache_handle_pte_fault e mm address (pte_ptr e mm address) flags s = Some (ret, t)"
    using assms(4) by (simp add: pcache_handle_fault_def)
  show ?thesis
  proof (cases "pte_present (ptes s (pte_ptr e mm address))")
    case True
    show ?thesis by (rule present_fault [OF assms(1-3) True res])
  next
    case False
    show ?thesis by (rule absent_fault [OF assms(1-3) False, of flags]) (use res in auto)
  qed
qed

end
