(* ===== verification/Pcache_Fork.thy ===== *)
theory Pcache_Fork
  imports Pcache_Handler
begin

section \<open>Copying page tables for fork\<close>

text \<open>
  \<open>pcache_copy_page_range\<close> of \<open>pgtable.c\<close>: what one page does to the tables of the
  parent and the child, and what the walk over a range leaves. The page that is copied gets one
  more reverse mapping, so the invariant of the cache is kept as long as the allocation of
  reverse mappings succeeds; the code ignores its failure.
\<close>

subsection \<open>A rule for loops that may fail\<close>

lemma range_loop_err_inv:
  assumes f: "steps_in_range f" and end_aligned: "page_aligned end"
    and body: "\<And>a s. a < end \<Longrightarrow> page_aligned a \<Longrightarrow> Q a s \<Longrightarrow>
      \<exists>ret t. body a (f a end) s = Some (ret, t) \<and> (if ret = 0 then Q (f a end) t else ret = - ENOMEM \<and> F t)"
  shows "addr < end \<Longrightarrow> page_aligned addr \<Longrightarrow> Q addr s \<Longrightarrow>
    \<exists>ret t. range_loop_err f body addr end s = Some (ret, t) \<and> (if ret = 0 then Q end t else ret = - ENOMEM \<and> F t)"
proof (induction "unat end - unat addr" arbitrary: addr s rule: less_induct)
  case less
  let ?n = "f addr end"
  have n: "addr < ?n" "?n \<le> end" "page_aligned ?n" using f less.prems(1,2) end_aligned by (simp_all add: steps_in_range_def)
  obtain ret t where t: "body addr ?n s = Some (ret, t)" "if ret = 0 then Q ?n t else ret = - ENOMEM \<and> F t" using body [OF less.prems] by blast
  show ?case
  proof (cases "ret \<noteq> 0 \<or> ?n = end")
    case True
    then show ?thesis using t by (auto simp: range_loop_err.simps [of f body addr] Let_def)
  next
    case False
    then have lt: "?n < end" and q: "Q ?n t" using n(2) t(2) by auto
    have "unat end - unat ?n < unat end - unat addr" using n(1) lt by (simp add: word_less_nat_alt)
    from less.hyps [OF this lt n(3) q] show ?thesis using t False lt n(1) by (auto simp: range_loop_err.simps [of f body addr] Let_def)
  qed
qed

subsection \<open>One page\<close>

text \<open>The entry of the parent and of the child after the copy of a present entry \<open>v\<close>.\<close>

definition parent_pte :: "u64 \<Rightarrow> pte \<Rightarrow> pte" where
  "parent_pte flags v = (if is_cow_mapping flags then pte_wrprotect v else v)"

definition child_pte :: "u64 \<Rightarrow> pte \<Rightarrow> pte" where
  "child_pte flags v = pte_mkold (if flags AND VM_SHARED \<noteq> 0 then pte_mkclean (parent_pte flags v) else parent_pte flags v)"

lemma copied_pte_frame [simp]:
  "pte_pfn (parent_pte fl v) = pte_pfn v" "pte_present (parent_pte fl v) = pte_present v"
  "pte_pfn (child_pte fl v) = pte_pfn v" "pte_present (child_pte fl v) = pte_present v"
  by (simp_all add: parent_pte_def child_pte_def)

text \<open>
  Reverse mappings of the child, or of its process, belong to pages it has from its parent at
  the same address.
\<close>

definition child_rmaps :: "penv \<Rightarrow> nat \<Rightarrow> nat \<Rightarrow> nat \<Rightarrow> pstate \<Rightarrow> bool" where
  "child_rmaps e dst src proc s \<longleftrightarrow> (\<forall>p < nl e. \<forall>r \<in> set (rmap (meta s p)). owner_mm r = dst \<or> owner_process r = proc \<longrightarrow>
     owner_mm r = dst \<and> owner_process r = proc \<and> (\<exists>r' \<in> set (rmap (meta s p)). owner_mm r' = src \<and> rm_address r' = rm_address r))"

definition copied_page :: "penv \<Rightarrow> nat \<Rightarrow> nat \<Rightarrow> u64 \<Rightarrow> u64 \<Rightarrow> (nat \<Rightarrow> pte) \<Rightarrow> (nat \<Rightarrow> pte) \<Rightarrow> bool" where
  "copied_page e dst src flags a f g \<longleftrightarrow> (let v = f (pte_ptr e src a) in
     if pte_present v then g (pte_ptr e src a) = parent_pte flags v \<and> g (pte_ptr e dst a) = child_pte flags v
     else g (pte_ptr e src a) = v \<and> (g (pte_ptr e dst a) = f (pte_ptr e dst a) \<or> pte_zerofill v \<and> g (pte_ptr e dst a) = v))"

lemma map_set_ref: "map_line p r v (set_ref p n s) = set_ref p n (map_line p r v s)"
  by (cases "meta s p"; rule pstate.equality; simp add: map_line_def set_ref_def Let_def split: option.split)

text \<open>The parent maps the page, so the line has no reverse mapping of the child yet.\<close>

lemma child_unmapped:
  assumes inv: "pinv e {} {} None s" and cr: "child_rmaps e dst src proc s" and m: "maps_line e s (pte_ptr e src a) p"
    and ab: "\<not> pte_present (ptes s (pte_ptr e dst a))" and pos: "pos \<in> set (rmap (meta s p))"
  shows "page_table pos \<noteq> pte_ptr e dst a" "owner_mm pos \<noteq> dst" "owner_process pos \<noteq> proc"
proof -
  obtain r where r: "r \<in> set (rmap (meta s p))" "owner_mm r = src" "rm_address r = a AND PAGE_MASK" and p: "p < nl e"
    using rmap_of_pte [OF inv m refl] by metis
  have mo: "meta_ok e s p" using line_okD [OF pinvD(3) [OF inv] p] by (simp add: line_ok_def)
  then have ok: "rmap_ok e s p pos" using pos by (simp add: meta_ok_def Let_def)
  then show pt: "page_table pos \<noteq> pte_ptr e dst a" using ab by (auto simp: rmap_ok_def maps_line_def)
  have "\<not> (owner_mm pos = dst \<or> owner_process pos = proc)"
  proof
    assume "owner_mm pos = dst \<or> owner_process pos = proc"
    then obtain r' where r': "owner_mm pos = dst" "r' \<in> set (rmap (meta s p))" "owner_mm r' = src" "rm_address r' = rm_address pos"
      using cr p pos unfolding child_rmaps_def by blast
    have "distinct (map owner_mm (rmap (meta s p)))" using mo by (simp add: meta_ok_def Let_def)
    then have "r' = r" using r r' by (auto simp: distinct_map dest: inj_onD)
    then have "page_table pos = pte_ptr e dst a" using ok r' r(3) page_walkD(1) [OF pinvD(1) [OF inv], of dst a] by (simp add: rmap_ok_def)
    then show False using pt by blast
  qed
  then show "owner_mm pos \<noteq> dst" "owner_process pos \<noteq> proc" by blast+
qed

text \<open>One more mapping of a line that the parent maps.\<close>

lemma fork_line:
  fixes e a dst proc s v p
  defines "r \<equiv> new_rmap e p (pte_ptr e dst a) a dst proc RMAP_FORK s"
  assumes inv: "pinv e {} {} None s" and ne: "dst \<noteq> src" and proc: "thread_group_leader e proc" and mem: "\<And>n. kzalloc_ok e n"
    and cr: "child_rmaps e dst src proc s" and ab: "\<not> pte_present (ptes s (pte_ptr e dst a))"
    and m: "maps_line e s (pte_ptr e src a) p" and v: "pte_present v" "pte_to_pcache_meta (geom e) v = Some p"
  obtains t k where "get_pcache p (pte_set (pte_ptr e dst a) v s) = Some (pte_set (pte_ptr e dst a) v (set_ref p (mapcount (meta s p) + 1) s))"
    "pcache_add_rmap e p (pte_ptr e dst a) a dst proc RMAP_FORK (pte_set (pte_ptr e dst a) v (set_ref p (mapcount (meta s p) + 1) s)) = Some (0, t)"
    "t = (set_ref p (mapcount (meta s p) + 1) (map_line p r v s))\<lparr>nr_kzalloc := k\<rparr>" "pinv e {} {} None t" "child_rmaps e dst src proc t"
proof -
  let ?d = "pte_ptr e dst a" and ?n = "mapcount (meta s p) + 1"
  note D = pinvD [OF inv]
  obtain r0 where r0: "r0 \<in> set (rmap (meta s p))" "owner_mm r0 = src" "rm_address r0 = a AND PAGE_MASK" and p: "p < nl e"
    using rmap_of_pte [OF inv m refl] by metis
  have lp: "line_ok e {} {} None s p" by (rule line_okD [OF D(3) p])
  then have ref: "refcount (meta s p) = mapcount (meta s p)" "0 < mapcount (meta s p)" and b: "PC_locked \<notin> bits (meta s p)" "PC_reclaim \<notin> bits (meta s p)"
    and lru: "in_lru e s p" using r0(1) in_lists [OF D(2,1) p]
    by (auto simp: line_ok_def meta_ok_def Let_def length_pos_if_in_set)
  note un = child_unmapped [OF inv cr m ab]
  let ?t = "(set_ref p ?n (map_line p r v s))\<lparr>nr_kzalloc := (if rmap_used s p then Suc (nr_kzalloc s) else nr_kzalloc s)\<rparr>"
  have get: "get_pcache p (pte_set ?d v s) = Some (pte_set ?d v (set_ref p ?n s))"
    using ref by (simp add: get_pcache_def pcache_ref_count_def pcache_ref_count_inc_def pte_set_def set_ref_def upd_meta_def)
  have "new_rmap e p ?d a dst proc RMAP_FORK (set_ref p ?n s) = r" by (simp add: r_def new_rmap_def set_ref_def)
  then have add: "pcache_add_rmap e p ?d a dst proc RMAP_FORK (pte_set ?d v (set_ref p ?n s)) = Some (0, ?t)"
    using pcache_add_rmap_eq [OF D(1) p, of "set_ref p ?n s" ?d dst a v proc RMAP_FORK] b v(2) proc un mem map_set_ref [of p r v ?n s]
    by (simp add: set_ref_def)
  have "pinv e {} ({} - {p}) None (set_ref p ?n (map_line p r v s))"
    by (rule pinv_map_line [OF inv p _ _ _ _ _ _ v lru])
       (use un ab page_walkD(1) [OF D(1)] in \<open>auto simp: r_def new_rmap_def maps_line_def simp del: pte_present_bit\<close>)
  then have pi: "pinv e {} {} None ?t" by simp
  have "child_rmaps e dst src proc ?t"
    unfolding child_rmaps_def
  proof (intro allI ballI impI)
    fix q x assume q: "q < nl e" "x \<in> set (rmap (meta ?t q))" "owner_mm x = dst \<or> owner_process x = proc"
    have rq: "set (rmap (meta ?t q)) = (if q = p then insert r (set (rmap (meta s p))) else set (rmap (meta s q)))"
      by (simp add: set_ref_def map_line_def Let_def)
    show "owner_mm x = dst \<and> owner_process x = proc \<and> (\<exists>r' \<in> set (rmap (meta ?t q)). owner_mm r' = src \<and> rm_address r' = rm_address x)"
    proof (cases "q = p \<and> x = r")
      case True
      then show ?thesis using r0 rq by (auto simp: r_def new_rmap_def)
    next
      case False
      then have "x \<in> set (rmap (meta s q))" using q(2) rq by (auto split: if_splits)
      then have "owner_mm x = dst \<and> owner_process x = proc \<and> (\<exists>r' \<in> set (rmap (meta s q)). owner_mm r' = src \<and> rm_address r' = rm_address x)"
        using cr q(1,3) unfolding child_rmaps_def by blast
      then show ?thesis using rq by auto
    qed
  qed
  then show ?thesis by (rule that [OF get add refl pi])
qed

text \<open>An entry that is present: the parent's is protected, the child's set and the line mapped once more.\<close>

definition protect_parent :: "penv \<Rightarrow> nat \<Rightarrow> u64 \<Rightarrow> u64 \<Rightarrow> pstate \<Rightarrow> pstate" where
  "protect_parent e src flags a s = (let x = pte_ptr e src a in
     if is_cow_mapping flags then flush_tlb_mm_range src a (a + PAGE_SIZE) (pte_set x (pte_wrprotect (ptes s x)) s) else s)"

lemma copy_pte_present:
  assumes "pte_present (ptes s (pte_ptr e src a))"
  shows "pcache_copy_pte e dst src flags proc a n s = (let c = child_pte flags (ptes s (pte_ptr e src a)); d = pte_ptr e dst a; s1 = protect_parent e src flags a s in do {
      (ret, t) \<leftarrow> (case pte_to_pcache_meta (geom e) c of None \<Rightarrow> Some (0 :: int, pte_set d c s1)
        | Some p \<Rightarrow> do { t \<leftarrow> get_pcache p (pte_set d c s1);
            (_, t) \<leftarrow> pcache_add_rmap e p d a dst proc RMAP_FORK t; Some (0, t) });
      Some (if ret \<noteq> 0 then - ENOMEM else 0, t) })"
proof -
  let ?x = "pte_ptr e src a"
  have pre: "(if is_cow_mapping flags
      then (pte_wrprotect (ptes s ?x), flush_tlb_mm_range src a (a + PAGE_SIZE) (pte_set ?x (pte_wrprotect (ptes s ?x)) s)) else (ptes s ?x, s)) =
      (parent_pte flags (ptes s ?x), protect_parent e src flags a s)"
    by (simp add: parent_pte_def protect_parent_def Let_def del: PAGE_SIZE_eq)
  have "\<not> pte_none (ptes s ?x)" using pte_none_absent assms by blast
  then show ?thesis using assms unfolding pcache_copy_pte_def pcache_copy_one_pte_def Let_def pre prod.case child_pte_def by simp
qed

lemma pcache_copy_pte_ok:
  assumes inv: "pinv e {} {} None s" and a: "page_aligned a" and ne: "dst \<noteq> src" and proc: "thread_group_leader e proc"
    and mem: "\<And>n. kzalloc_ok e n" and cr: "child_rmaps e dst src proc s" and ab: "\<not> pte_present (ptes s (pte_ptr e dst a))"
  shows "\<exists>t. pcache_copy_pte e dst src flags proc a n s = Some (0, t) \<and> pinv e {} {} None t \<and> child_rmaps e dst src proc t \<and>
    ptl_held t = ptl_held s \<and> copied_page e dst src flags a (ptes s) (ptes t) \<and>
    (\<forall>x. x \<noteq> pte_ptr e src a \<longrightarrow> x \<noteq> pte_ptr e dst a \<longrightarrow> ptes t x = ptes s x) \<and> line t = line s \<and> net t = net s \<and>
    (\<forall>p. \<forall>r \<in> set (rmap (meta t p)). owner_mm r = dst \<or> r \<in> set (rmap (meta s p)))"
proof -
  let ?s = "pte_ptr e src a" and ?d = "pte_ptr e dst a"
  let ?v = "ptes s ?s"
  have env: "env_ok e" by (rule pinvD(1) [OF inv])
  have sd: "?s \<noteq> ?d" using page_walkD(3) [OF env, of src a dst a] ne by auto
  show ?thesis
  proof (cases "pte_present ?v")
    case False
    have "pinv e {} {} None (pte_set ?d ?v s)" by (rule pinv_clear_absent [OF inv ab False])
    moreover have "child_rmaps e dst src proc (pte_set ?d ?v s)" using cr by (simp add: child_rmaps_def pte_set_def)
    ultimately show ?thesis
      using False inv cr sd
      by (auto simp: pcache_copy_pte_def Let_def copied_page_def pte_set_def simp del: pte_present_bit)
  next
    case True
    have w: "pinv e {} {} None (s\<lparr>ptes := (ptes s)(?s := parent_pte flags ?v)\<rparr>)" by (rule pinv_pte_flags [OF inv]) (simp_all del: pte_present_bit)
    define s1 where "s1 = protect_parent e src flags a s"
    have s1: "pinv e {} {} None s1" "ptes s1 = (ptes s)(?s := parent_pte flags ?v)" "meta s1 = meta s" "line s1 = line s" "net s1 = net s"
        "ptl_held s1 = ptl_held s" "rmap_used s1 = rmap_used s" "pset s1 = pset s"
      using w inv by (cases "is_cow_mapping flags"; simp add: s1_def protect_parent_def Let_def parent_pte_def pte_set_def flush_tlb_mm_range_def)+
    let ?c = "child_pte flags ?v"
    note one = copy_pte_present [OF True, of dst flags proc n, folded s1_def, unfolded Let_def]
    have fr: "pte_to_pcache_meta (geom e) ?c = pte_to_pcache_meta (geom e) ?v" by (rule pte_same_frame) simp
    have ab1: "\<not> pte_present (ptes s1 ?d)" using ab sd s1(2) by simp
    have cp: "copied_page e dst src flags a (ptes s) ((ptes s1)(?d := ?c))" using True sd s1(2) by (simp add: copied_page_def del: pte_present_bit)
    have cr1: "child_rmaps e dst src proc s1" using cr s1(3) by (simp add: child_rmaps_def)
    show ?thesis
    proof (cases "pte_to_pcache_meta (geom e) ?v")
      case None
      have "pinv e {} {} None (s1\<lparr>ptes := (ptes s1)(?d := ?c)\<rparr>)"
        by (rule pinv_same_maps [OF s1(1)]) (use None fr ab1 in \<open>auto simp: maps_line_def\<close>)
      then show ?thesis using one fr None s1 cp cr1 by (auto simp: pte_set_def child_rmaps_def)
    next
      case (Some p)
      have m: "maps_line e s1 ?s p" using Some True s1(2) pte_same_frame [of "parent_pte flags ?v" ?v "geom e"] by (simp add: maps_line_def del: pte_present_bit)
      have v: "pte_present ?c" "pte_to_pcache_meta (geom e) ?c = Some p" using True Some fr by (simp_all del: pte_present_bit)
      obtain t k where t: "get_pcache p (pte_set ?d ?c s1) = Some (pte_set ?d ?c (set_ref p (mapcount (meta s1 p) + 1) s1))"
        "pcache_add_rmap e p ?d a dst proc RMAP_FORK (pte_set ?d ?c (set_ref p (mapcount (meta s1 p) + 1) s1)) = Some (0, t)"
        "t = (set_ref p (mapcount (meta s1 p) + 1) (map_line p (new_rmap e p ?d a dst proc RMAP_FORK s1) ?c s1))\<lparr>nr_kzalloc := k\<rparr>"
        "pinv e {} {} None t" "child_rmaps e dst src proc t"
        using fork_line [OF s1(1) ne proc mem cr1 ab1 m v] by metis
      have "ptes t = (ptes s1)(?d := ?c)" "line t = line s" "net t = net s" "ptl_held t = ptl_held s"
        "\<forall>q. \<forall>r \<in> set (rmap (meta t q)). owner_mm r = dst \<or> r \<in> set (rmap (meta s q))"
        using s1 by (simp_all add: t(3) set_ref_def map_line_def Let_def)
      then show ?thesis using one v(2) t(1,2,4,5) cp s1(2) by auto
    qed
  qed
qed

subsection \<open>A range\<close>

lemma unat_page_mask: "unat ((a :: u64) AND PAGE_MASK) = unat a div 4096 * 4096"
  by (simp add: unat_page_align)

lemma page_of_aligned: "page_aligned c \<Longrightarrow> unat c div 4096 * 4096 = unat c"
  by (simp add: page_aligned_def dvd_div_mult_self)

text \<open>Addresses on both sides of an aligned one are on different pages.\<close>

lemma pages_differ:
  assumes "page_aligned c" "d < c" "c \<le> d'"
  shows "d AND PAGE_MASK \<noteq> d' AND PAGE_MASK"
proof
  assume "d AND PAGE_MASK = d' AND PAGE_MASK"
  then have "unat d div 4096 * 4096 = unat d' div 4096 * 4096" using unat_page_mask by metis
  then have "unat d div 4096 = unat d' div 4096" by simp
  moreover have "unat d < unat c" "unat c \<le> unat d'" using assms(2,3) by (simp_all add: word_less_nat_alt word_le_nat_alt)
  moreover obtain k where "unat c = 4096 * k" using assms(1) by (auto simp: page_aligned_def elim: dvdE)
  ultimately show False by (metis div_le_mono leD less_mult_imp_div_less mult.commute nonzero_mult_div_cancel_left zero_neq_numeral)
qed

definition forked :: "penv \<Rightarrow> nat \<Rightarrow> nat \<Rightarrow> nat \<Rightarrow> u64 \<Rightarrow> u64 \<Rightarrow> u64 \<Rightarrow> pstate \<Rightarrow> nat set \<Rightarrow> u64 \<Rightarrow> pstate \<Rightarrow> bool" where
  "forked e dst src proc flags lo hi s0 h c s \<longleftrightarrow>
     pinv e {} {} None s \<and> ptl_held s = h \<and> child_rmaps e dst src proc s \<and> lo \<le> c \<and> c \<le> hi \<and>
     (\<forall>d. c \<le> d \<and> d < hi \<longrightarrow> \<not> pte_present (ptes s (pte_ptr e dst d))) \<and>
     (\<forall>d. lo \<le> d \<and> d < c \<longrightarrow> copied_page e dst src flags d (ptes s0) (ptes s)) \<and>
     (\<forall>x. (\<forall>d. lo \<le> d \<and> d < c \<longrightarrow> x \<noteq> pte_ptr e src d \<and> x \<noteq> pte_ptr e dst d) \<longrightarrow> ptes s x = ptes s0 x) \<and>
     line s = line s0 \<and> net s = net s0 \<and> (\<forall>p. \<forall>r \<in> set (rmap (meta s p)). owner_mm r = dst \<or> r \<in> set (rmap (meta s0 p)))"

lemma forkedD:
  assumes "forked e dst src proc flags lo hi s0 h c s"
  shows "pinv e {} {} None s" "ptl_held s = h" "child_rmaps e dst src proc s" "lo \<le> c" "c \<le> hi"
    "\<And>d. c \<le> d \<Longrightarrow> d < hi \<Longrightarrow> \<not> pte_present (ptes s (pte_ptr e dst d))"
    "\<And>d. lo \<le> d \<Longrightarrow> d < c \<Longrightarrow> copied_page e dst src flags d (ptes s0) (ptes s)"
    "\<And>x. (\<And>d. lo \<le> d \<Longrightarrow> d < c \<Longrightarrow> x \<noteq> pte_ptr e src d \<and> x \<noteq> pte_ptr e dst d) \<Longrightarrow> ptes s x = ptes s0 x"
    "line s = line s0" "net s = net s0" "\<And>p r. r \<in> set (rmap (meta s p)) \<Longrightarrow> owner_mm r = dst \<or> r \<in> set (rmap (meta s0 p))"
  using assms unfolding forked_def by blast+

lemma forked_ahead:
  assumes fk: "forked e dst src proc flags lo hi s0 h c s" and c: "page_aligned c" "c \<le> d" and ne: "dst \<noteq> src" and mm: "mm = src \<or> mm = dst"
  shows "ptes s (pte_ptr e mm d) = ptes s0 (pte_ptr e mm d)"
proof (rule forkedD(8) [OF fk])
  fix d' assume d': "lo \<le> d'" "d' < c"
  have "d' AND PAGE_MASK \<noteq> d AND PAGE_MASK" by (rule pages_differ [OF c(1) d'(2) c(2)])
  then show "pte_ptr e mm d \<noteq> pte_ptr e src d' \<and> pte_ptr e mm d \<noteq> pte_ptr e dst d'"
    using page_walkD(3) [OF pinvD(1) [OF forkedD(1) [OF fk]]] by metis
qed

lemma copied_page_absent:
  assumes "\<not> pte_present (f (pte_ptr e src d))" "g (pte_ptr e src d) = f (pte_ptr e src d)" "g (pte_ptr e dst d) = f (pte_ptr e dst d)"
  shows "copied_page e dst src flags d f g"
  using assms by (simp add: copied_page_def Let_def del: pte_present_bit)

text \<open>A part of the range without present entries is skipped.\<close>

lemma forked_skip:
  assumes fk: "forked e dst src proc flags lo hi s0 h c s" and c: "page_aligned c" and ne: "dst \<noteq> src" and n: "c \<le> n" "n \<le> hi"
    and ab: "\<And>d. c \<le> d \<Longrightarrow> d < n \<Longrightarrow> \<not> pte_present (ptes s0 (pte_ptr e src d))"
  shows "forked e dst src proc flags lo hi s0 h n s"
proof -
  note F = forkedD [OF fk]
  have "copied_page e dst src flags d (ptes s0) (ptes s)" if "lo \<le> d" "d < n" for d
  proof (cases "d < c")
    case False
    then have d: "c \<le> d" by simp
    show ?thesis by (rule copied_page_absent) (rule ab [OF d that(2)] forked_ahead [OF fk c d ne] | simp)+
  qed (use F(7) that in blast)
  moreover have "ptes s x = ptes s0 x" if "\<forall>d. lo \<le> d \<and> d < n \<longrightarrow> x \<noteq> pte_ptr e src d \<and> x \<noteq> pte_ptr e dst d" for x
    by (rule F(8)) (use that n(1) less_le_trans in blast)
  ultimately show ?thesis unfolding forked_def using F(1-5,9-11) F(6) order_trans [OF F(4) n(1)] order_trans [OF n(1)] n(2) by blast
qed

lemma page_span:
  assumes "a < b" "page_aligned a" "page_aligned b" "d AND PAGE_MASK = a" "a \<le> d"
  shows "d < pte_addr_end a b"
proof (rule ccontr)
  assume "\<not> d < pte_addr_end a b"
  then have "a AND PAGE_MASK \<noteq> d AND PAGE_MASK"
    using pages_differ [OF pte_addr_end_step(3,1) [OF assms(1-3)]] by simp
  then show False using assms(2,4) page_aligned_mask by metis
qed

lemma forked_page:
  assumes fk: "forked e dst src proc flags lo hi s0 h c s" and c: "page_aligned c" "c < b" and b: "page_aligned b" "b \<le> hi"
    and ne: "dst \<noteq> src" and proc: "thread_group_leader e proc" and mem: "\<And>n. kzalloc_ok e n"
  shows "\<exists>t. pcache_copy_pte e dst src flags proc c (pte_addr_end c b) s = Some (0, t) \<and>
    forked e dst src proc flags lo hi s0 h (pte_addr_end c b) t"
proof -
  note F = forkedD [OF fk]
  let ?n = "pte_addr_end c b"
  note st = pte_addr_end_step [OF c(2,1) b(1)]
  have env: "env_ok e" by (rule pinvD(1) [OF F(1)])
  have cn: "c < ?n" "?n \<le> hi" using st(1,2) b(2) by simp_all
  have ab: "\<not> pte_present (ptes s (pte_ptr e dst c))" using F(6) [of c] cn by simp
  obtain t where t: "pcache_copy_pte e dst src flags proc c ?n s = Some (0, t)" "pinv e {} {} None t" "child_rmaps e dst src proc t"
      "ptl_held t = ptl_held s" "copied_page e dst src flags c (ptes s) (ptes t)"
      "\<And>x. x \<noteq> pte_ptr e src c \<Longrightarrow> x \<noteq> pte_ptr e dst c \<Longrightarrow> ptes t x = ptes s x" "line t = line s" "net t = net s"
      "\<And>p r. r \<in> set (rmap (meta t p)) \<Longrightarrow> owner_mm r = dst \<or> r \<in> set (rmap (meta s p))"
    using pcache_copy_pte_ok [OF F(1) c(1) ne proc mem F(3) ab, of flags ?n] by blast
  have same: "pte_ptr e mm d = pte_ptr e mm c" if "c \<le> d" "d < ?n" for mm d
    using page_walkD(1) [OF env, of mm d] st(4) [OF that] by simp
  have ahead: "ptes s (pte_ptr e src c) = ptes s0 (pte_ptr e src c)" "ptes s (pte_ptr e dst c) = ptes s0 (pte_ptr e dst c)"
    by (rule forked_ahead [OF fk c(1) order_refl ne]; simp)+
  have other: "pte_ptr e mm d \<noteq> pte_ptr e mm' c" if "d < c \<or> ?n \<le> d" for mm mm' d
  proof -
    have "d AND PAGE_MASK \<noteq> c"
      using that pages_differ [OF c(1), of d c] pages_differ [OF st(3) cn(1), of d] page_aligned_mask [OF c(1)] by auto
    then show ?thesis using page_walkD(3) [OF env, of mm d mm' c] page_aligned_mask [OF c(1)] by auto
  qed
  have keep: "ptes t (pte_ptr e mm d) = ptes s (pte_ptr e mm d)" if "d < c \<or> ?n \<le> d" for mm d by (rule t(6)) (use other [OF that] in blast)+
  have "copied_page e dst src flags d (ptes s0) (ptes t)" if d: "lo \<le> d" "d < ?n" for d
  proof (cases "d < c")
    case True
    show ?thesis using F(7) [OF d(1) True] unfolding copied_page_def Let_def keep [OF disjI1 [OF True]] .
  next
    case False
    then have "c \<le> d" by simp
    note sm = same [OF this d(2)]
    show ?thesis using t(5) unfolding copied_page_def sm Let_def ahead .
  qed
  moreover have "ptes t x = ptes s0 x" if x: "\<forall>d. lo \<le> d \<and> d < ?n \<longrightarrow> x \<noteq> pte_ptr e src d \<and> x \<noteq> pte_ptr e dst d" for x
  proof -
    have "x \<noteq> pte_ptr e src c" "x \<noteq> pte_ptr e dst c" using x F(4) cn(1) by blast+
    then have "ptes t x = ptes s x" by (rule t(6))
    also have "\<dots> = ptes s0 x" by (rule F(8)) (use x cn(1) less_trans in blast)
    finally show ?thesis .
  qed
  moreover have "\<not> pte_present (ptes t (pte_ptr e dst d))" if "?n \<le> d" "d < hi" for d
    using keep [of d dst] F(6) [of d] that cn(1) by simp
  moreover have own: "owner_mm r = dst \<or> r \<in> set (rmap (meta s0 p))" if "r \<in> set (rmap (meta t p))" for p r
    using t(9) [OF that] F(11) by blast
  ultimately have "forked e dst src proc flags lo hi s0 h ?n t"
    unfolding forked_def using t(2-4,7,8) F(2,9,10) own order_trans [OF F(4) less_imp_le [OF cn(1)]] cn(2) by simp
  then show ?thesis using t(1) by blast
qed

definition fork_result :: "penv \<Rightarrow> nat \<Rightarrow> nat \<Rightarrow> nat \<Rightarrow> u64 \<Rightarrow> u64 \<Rightarrow> u64 \<Rightarrow> pstate \<Rightarrow> nat set \<Rightarrow> u64 \<Rightarrow> (int \<times> pstate) option \<Rightarrow> bool" where
  "fork_result e dst src proc flags lo hi s0 h b res \<longleftrightarrow> (\<exists>ret t. res = Some (ret, t) \<and>
     (if ret = 0 then forked e dst src proc flags lo hi s0 h b t
      else ret = - ENOMEM \<and> (\<exists>c. forked e dst src proc flags lo hi s0 h c t)))"

lemma pcache_copy_pte_range_ok:
  assumes fk: "forked e dst src proc flags lo hi s0 h a s" and a: "a < b" "page_aligned a" "page_aligned b" "b \<le> hi"
    and ne: "dst \<noteq> src" and proc: "thread_group_leader e proc" and mem: "\<And>n. kzalloc_ok e n"
    and lk: "\<And>a. pte_lockptr e dst a \<notin> h" "\<And>a. pte_lockptr e src a \<notin> h"
  shows "fork_result e dst src proc flags lo hi s0 h b (pcache_copy_pte_range e dst src flags proc a b s)"
proof (cases "pte_alloc_ok e dst a")
  case False
  then show ?thesis using fk by (auto simp: fork_result_def pcache_copy_pte_range_def ENOMEM_def)
next
  case True
  let ?d = "pte_lockptr e dst a" and ?s = "pte_lockptr e src a"
  let ?h = "insert ?s (insert ?d h)"
  have frame: "forked e dst src proc flags lo hi s0 h' c (u\<lparr>ptl_held := h'\<rparr>)" if "forked e dst src proc flags lo hi s0 h'' c u" for h' h'' c u
    using that by (simp add: forked_def child_rmaps_def)
  have hs: "ptl_held s = h" by (rule forkedD(2) [OF fk])
  have "\<exists>ret t. range_loop_err pte_addr_end (pcache_copy_pte e dst src flags proc) a b (s\<lparr>ptl_held := ?h\<rparr>) = Some (ret, t) \<and>
      (if ret = 0 then forked e dst src proc flags lo hi s0 ?h b t else ret = - ENOMEM \<and> False)"
  proof (rule range_loop_err_inv [where Q = "forked e dst src proc flags lo hi s0 ?h"])
    fix c u assume "c < b" "page_aligned c" "forked e dst src proc flags lo hi s0 ?h c u"
    then show "\<exists>ret t. pcache_copy_pte e dst src flags proc c (pte_addr_end c b) u = Some (ret, t) \<and>
        (if ret = 0 then forked e dst src proc flags lo hi s0 ?h (pte_addr_end c b) t else ret = - ENOMEM \<and> False)"
      using forked_page [of e dst src proc flags lo hi s0 ?h c u b] a(3,4) ne proc mem by force
  qed (use a level_steps frame [OF fk] in auto)
  then obtain t where t: "range_loop_err pte_addr_end (pcache_copy_pte e dst src flags proc) a b (s\<lparr>ptl_held := ?h\<rparr>) = Some (0, t)"
     "forked e dst src proc flags lo hi s0 ?h b t" by (auto split: if_splits)
  have "pcache_copy_pte_range e dst src flags proc a b s = Some (0, t\<lparr>ptl_held := h\<rparr>)"
    using t(1) True hs lk forkedD(2) [OF t(2)]
    by (cases "?s = ?d") (auto simp: pcache_copy_pte_range_def Let_def spin_lock_ptl_def spin_unlock_ptl_def)
  then show ?thesis using frame [OF t(2), of h] by (auto simp: fork_result_def)
qed

text \<open>One upper level.\<close>

lemma fork_level:
  assumes fk: "forked e dst src proc flags lo hi s0 h a s" and ab: "a < b" "page_aligned a" "page_aligned b" "b \<le> hi"
    and ne: "dst \<noteq> src" and sh: "12 \<le> sh" "sh < 64"
    and none: "\<And>a c. N a \<Longrightarrow> unat c div 2 ^ sh = unat a div 2 ^ sh \<Longrightarrow> \<not> pte_present (ptes s0 (pte_ptr e src c))"
    and inner: "\<And>a b s. forked e dst src proc flags lo hi s0 h a s \<Longrightarrow> a < b \<Longrightarrow> page_aligned a \<Longrightarrow> page_aligned b \<Longrightarrow> b \<le> hi \<Longrightarrow>
      fork_result e dst src proc flags lo hi s0 h b (inner a b s)"
  shows "fork_result e dst src proc flags lo hi s0 h b (range_loop_err (addr_end sh) (\<lambda>a n s. if N a then Some (0, s)
      else do { (ret, s) \<leftarrow> inner a n s; Some (if ret \<noteq> 0 then - ENOMEM else 0, s) }) a b s)"
  unfolding fork_result_def
proof (rule range_loop_err_inv [where Q = "forked e dst src proc flags lo hi s0 h"])
  show "steps_in_range (addr_end sh)" using addr_end_step sh by (simp add: steps_in_range_def)
  fix c u assume c: "c < b" "page_aligned c" and q: "forked e dst src proc flags lo hi s0 h c u"
  note st = addr_end_step [OF c ab(3) sh]
  have n: "addr_end sh c b \<le> hi" using st(2) ab(4) by simp
  show "\<exists>ret t. (if N c then Some (0, u) else do { (ret, s) \<leftarrow> inner c (addr_end sh c b) u; Some (if ret \<noteq> 0 then - ENOMEM else 0, s) }) = Some (ret, t) \<and>
      (if ret = 0 then forked e dst src proc flags lo hi s0 h (addr_end sh c b) t
       else ret = - ENOMEM \<and> (\<exists>c. forked e dst src proc flags lo hi s0 h c t))"
  proof (cases "N c")
    case True
    have "forked e dst src proc flags lo hi s0 h (addr_end sh c b) u"
      by (rule forked_skip [OF q c(2) ne less_imp_le [OF st(1)] n]) (use none [OF True] st(4) in blast)
    then show ?thesis using True by simp
  next
    case False
    obtain ret t where t: "inner c (addr_end sh c b) u = Some (ret, t)" "if ret = 0 then forked e dst src proc flags lo hi s0 h (addr_end sh c b) t
        else ret = - ENOMEM \<and> (\<exists>c. forked e dst src proc flags lo hi s0 h c t)"
      using inner [OF q st(1) c(2) st(3) n] unfolding fork_result_def by blast
    show ?thesis by (rule exI [of _ ret], rule exI [of _ t]) (use t False in \<open>cases "ret = 0"; simp\<close>)
  qed
qed (use ab fk in auto)

lemma pcache_copy_page_range_ok:
  assumes fk: "forked e dst src proc flags lo hi s0 h a s" and a: "a < b" "page_aligned a" "page_aligned b" "b \<le> hi"
    and ne: "dst \<noteq> src" and proc: "thread_group_leader e proc" and mem: "\<And>n. kzalloc_ok e n"
    and lk: "\<And>a. pte_lockptr e dst a \<notin> h" "\<And>a. pte_lockptr e src a \<notin> h" and lev: "levels_ok w e src s0"
  shows "fork_result e dst src proc flags lo hi s0 h b (pcache_copy_page_range w e dst src a b flags proc s)"
proof -
  have fail: "fork_result e dst src proc flags lo hi s0 h b (Some (- ENOMEM, s))" if "forked e dst src proc flags lo hi s0 h a s" for a b s
    using that by (auto simp: fork_result_def ENOMEM_def)
  have pmd: "fork_result e dst src proc flags lo hi s0 h b (pcache_copy_pmd_range w e dst src flags proc a b s)"
    if "forked e dst src proc flags lo hi s0 h a s" "a < b" "page_aligned a" "page_aligned b" "b \<le> hi" for a b s
  proof (cases "pmd_alloc_ok w dst a")
    case True
    then show ?thesis unfolding pcache_copy_pmd_range_def addr_end_levels
      using fork_level [OF that ne, of 21 "pmd_none w src" "pcache_copy_pte_range e dst src flags proc"] levels_okD(3) [OF lev]
        pcache_copy_pte_range_ok [OF _ _ _ _ _ ne proc mem lk] by simp
  qed (use fail [OF that(1)] in \<open>simp add: pcache_copy_pmd_range_def\<close>)
  have pud: "fork_result e dst src proc flags lo hi s0 h b (pcache_copy_pud_range w e dst src flags proc a b s)"
    if "forked e dst src proc flags lo hi s0 h a s" "a < b" "page_aligned a" "page_aligned b" "b \<le> hi" for a b s
  proof (cases "pud_alloc_ok w dst a")
    case True
    then show ?thesis unfolding pcache_copy_pud_range_def addr_end_levels
      using fork_level [OF that ne, of 30 "pud_none w src" "pcache_copy_pmd_range w e dst src flags proc"] levels_okD(2) [OF lev] pmd by simp
  qed (use fail [OF that(1)] in \<open>simp add: pcache_copy_pud_range_def\<close>)
  show ?thesis unfolding pcache_copy_page_range_def addr_end_levels
    by (rule fork_level [OF fk a ne]) (use levels_okD(1) [OF lev] pud in simp_all)
qed

end
