(* ===== verification/Pcache_Coherence.thy ===== *)
theory Pcache_Coherence
  imports Pcache_Fork
begin

section \<open>The cache and its memory component as one memory\<close>

text \<open>
  Every address space sees a flat memory: a page it has mapped is the content of the cache
  line, any other page is what the memory component holds. The invariant that makes this view
  independent of evictions and refills is stated on three pieces of the state: the pages held by
  memory, the page table entries, and the content of the lines.
\<close>

subsection \<open>Memory as the receiver of flushes\<close>

text \<open>Pages by thread group and page address, after the messages received so far.\<close>

type_synonym pages = "nat \<Rightarrow> u64 \<Rightarrow> line_data"

definition put_page :: "p2m_flush_msg \<Rightarrow> pages \<Rightarrow> pages" where
  "put_page f M = M(fl_pid f := (M (fl_pid f))(fl_user_va f := fl_pcacheline f))"

fun deliver :: "pages \<Rightarrow> p2m_msg \<Rightarrow> pages" where
  "deliver M (P2M_FLUSH _ f) = put_page f M"
| "deliver M (P2M_MISS _ _) = M"
| "deliver M (P2M_MISS_FLUSH _ _ f) = put_page f M"

definition memory :: "pages \<Rightarrow> p2m_msg list \<Rightarrow> pages" where
  "memory M h = foldl deliver M h"

lemma memory_simps [simp]: "memory M [] = M" "memory M (h @ [m]) = deliver (memory M h) m"
  by (simp_all add: memory_def)

lemma memory_append: "memory M (h @ h') = memory (memory M h) h'"
  by (simp add: memory_def)

lemma memory_Cons [simp]: "memory M (m # h) = memory (deliver M m) h"
  by (simp add: memory_def)

fun miss_of :: "p2m_msg \<Rightarrow> p2m_pcache_miss_msg option" where
  "miss_of (P2M_FLUSH _ _) = None"
| "miss_of (P2M_MISS _ m) = Some m"
| "miss_of (P2M_MISS_FLUSH _ m _) = Some m"

text \<open>The memory component answers a miss with the page, as the flushes received so far have left it.\<close>

definition serves_pages :: "penv \<Rightarrow> pages \<Rightarrow> bool" where
  "serves_pages e M0 \<longleftrightarrow> (\<forall>h msg m. miss_of msg = Some m \<longrightarrow>
     int (unat (PCACHE_LINE_SIZE (pconfig (geom e)))) \<le> fst (reply e (h @ [msg])) \<longrightarrow>
     snd (reply e (h @ [msg])) = memory M0 (h @ [msg]) (ms_tgid m) (ms_missing_vaddr m AND PAGE_MASK))"

subsection \<open>View and coherence\<close>

definition maps :: "penv \<Rightarrow> (nat \<Rightarrow> pte) \<Rightarrow> nat \<Rightarrow> nat \<Rightarrow> bool" where
  "maps e f x p \<longleftrightarrow> pte_present (f x) \<and> pte_to_pcache_meta (geom e) (f x) = Some p"

lemma maps_line_maps: "maps_line e s x p = maps e (ptes s) x p"
  by (simp add: maps_line_def maps_def)

lemma maps_upd: "maps e (f(x := v)) y p \<longleftrightarrow> (if y = x then pte_present v \<and> pte_to_pcache_meta (geom e) v = Some p else maps e f y p)"
  by (simp add: maps_def)

lemma maps_unique: "maps e f x p \<Longrightarrow> maps e f x q \<Longrightarrow> p = q"
  by (simp add: maps_def)

definition view :: "penv \<Rightarrow> (nat \<Rightarrow> nat) \<Rightarrow> pages \<Rightarrow> (nat \<Rightarrow> pte) \<Rightarrow> (nat \<Rightarrow> line_data) \<Rightarrow> nat \<Rightarrow> u64 \<Rightarrow> line_data" where
  "view e tg M f l mm a = (let v = f (pte_ptr e mm a) in
     case (if pte_present v then pte_to_pcache_meta (geom e) v else None) of
       Some p \<Rightarrow> l p | None \<Rightarrow> M (tg mm) (a AND PAGE_MASK))"

lemma view_maps: "maps e f (pte_ptr e mm a) p \<Longrightarrow> view e tg M f l mm a = l p"
  by (simp add: view_def maps_def Let_def)

lemma view_memory: "\<not> (\<exists>p. maps e f (pte_ptr e mm a) p) \<Longrightarrow> view e tg M f l mm a = M (tg mm) (a AND PAGE_MASK)"
  by (cases "pte_to_pcache_meta (geom e) (f (pte_ptr e mm a))") (auto simp: view_def maps_def Let_def)

text \<open>
  A line that is not dirty equals memory; a page marked for zero fill is zero in memory; a line
  that can be written is mapped once.
\<close>

definition coherent :: "penv \<Rightarrow> (nat \<Rightarrow> nat) \<Rightarrow> pages \<Rightarrow> (nat \<Rightarrow> pte) \<Rightarrow> (nat \<Rightarrow> line_data) \<Rightarrow> bool" where
  "coherent e tg M f l \<longleftrightarrow>
     (\<forall>mm a p. maps e f (pte_ptr e mm a) p \<longrightarrow> \<not> pte_dirty (f (pte_ptr e mm a)) \<longrightarrow> l p = M (tg mm) (a AND PAGE_MASK)) \<and>
     (\<forall>mm a. \<not> pte_present (f (pte_ptr e mm a)) \<longrightarrow> pte_zerofill (f (pte_ptr e mm a)) \<longrightarrow>
        M (tg mm) (a AND PAGE_MASK) = replicate (unat (PCACHE_LINE_SIZE (pconfig (geom e)))) 0) \<and>
     (\<forall>x y p. maps e f x p \<longrightarrow> pte_write (f x) \<longrightarrow> maps e f y p \<longrightarrow> y = x)"

lemma coherentD:
  assumes "coherent e tg M f l"
  shows "maps e f (pte_ptr e mm a) p \<Longrightarrow> \<not> pte_dirty (f (pte_ptr e mm a)) \<Longrightarrow> l p = M (tg mm) (a AND PAGE_MASK)"
    and "\<not> pte_present (f (pte_ptr e mm a)) \<Longrightarrow> pte_zerofill (f (pte_ptr e mm a)) \<Longrightarrow>
      M (tg mm) (a AND PAGE_MASK) = replicate (unat (PCACHE_LINE_SIZE (pconfig (geom e)))) 0"
    and "maps e f x p \<Longrightarrow> pte_write (f x) \<Longrightarrow> maps e f y p \<Longrightarrow> y = x"
  using assms unfolding coherent_def by blast+

lemma coherentI:
  assumes "\<And>mm a p. maps e f (pte_ptr e mm a) p \<Longrightarrow> \<not> pte_dirty (f (pte_ptr e mm a)) \<Longrightarrow> l p = M (tg mm) (a AND PAGE_MASK)"
    and "\<And>mm a. \<not> pte_present (f (pte_ptr e mm a)) \<Longrightarrow> pte_zerofill (f (pte_ptr e mm a)) \<Longrightarrow>
      M (tg mm) (a AND PAGE_MASK) = replicate (unat (PCACHE_LINE_SIZE (pconfig (geom e)))) 0"
    and "\<And>x y p. maps e f x p \<Longrightarrow> pte_write (f x) \<Longrightarrow> maps e f y p \<Longrightarrow> y = x"
  shows "coherent e tg M f l"
  using assms unfolding coherent_def by blast

subsection \<open>The steps on the pieces\<close>

text \<open>A page written to memory while its entry is cleared.\<close>

lemma writeback_coherent:
  assumes env: "env_ok e" and tg: "inj tg" and coh: "coherent e tg M f l" and m: "maps e f (pte_ptr e mm0 a0) p"
    and fl: "fl_pid b = tg mm0" "fl_user_va b = a0 AND PAGE_MASK" "fl_pcacheline b = l p"
    and M': "M' = (if pte_dirty (f (pte_ptr e mm0 a0)) then put_page b M else M)"
  shows "coherent e tg M' (f(pte_ptr e mm0 a0 := 0)) l" and "view e tg M' (f(pte_ptr e mm0 a0 := 0)) l = view e tg M f l"
proof -
  let ?x = "pte_ptr e mm0 a0" and ?f = "f(pte_ptr e mm0 a0 := 0)"
  have here: "M' (tg mm0) (a0 AND PAGE_MASK) = l p"
    using coherentD(1) [OF coh m] fl M' by (simp add: put_page_def)
  have there: "M' (tg mm) (a AND PAGE_MASK) = M (tg mm) (a AND PAGE_MASK)" if "pte_ptr e mm a \<noteq> ?x" for mm a
  proof -
    have "mm \<noteq> mm0 \<or> a AND PAGE_MASK \<noteq> a0 AND PAGE_MASK" using that page_walkD(1) [OF env] by metis
    then show ?thesis using fl M' injD [OF tg, of mm mm0] by (auto simp: put_page_def)
  qed
  have mf: "maps e ?f y q \<longleftrightarrow> y \<noteq> ?x \<and> maps e f y q" for y q by (simp add: maps_upd)
  show "coherent e tg M' ?f l"
    unfolding coherent_def mf using coherentD [OF coh] there by (auto simp del: pte_present_bit)
  have "view e tg M' ?f l mm a = view e tg M f l mm a" for mm a
  proof (cases "pte_ptr e mm a = ?x")
    case True
    then have "mm = mm0" "a AND PAGE_MASK = a0 AND PAGE_MASK" using page_walkD(3) [OF env True] by simp_all
    then show ?thesis using view_maps [OF m [folded True], of tg M l] view_memory [of e ?f mm a tg M' l] here True by (simp add: mf)
  next
    case False
    then show ?thesis using there [OF False] by (auto simp: view_def Let_def split: option.split)
  qed
  then show "view e tg M' ?f l = view e tg M f l" by blast
qed

text \<open>A line that nobody maps may change.\<close>

lemma unmapped_line_coherent:
  assumes "\<And>x. \<not> maps e f x p"
  shows "coherent e tg M f l \<Longrightarrow> coherent e tg M f (l(p := c))" "view e tg M f (l(p := c)) = view e tg M f l"
proof -
  have l: "(l(p := c)) q = l q" if "maps e f x q" for x q using assms that by (cases "q = p") auto
  show "coherent e tg M f (l(p := c))" if coh: "coherent e tg M f l"
    by (rule coherentI) (use coherentD [OF coh] l in metis)+
  have "view e tg M f (l(p := c)) mm a = view e tg M f l mm a" for mm a
    using assms [of "pte_ptr e mm a"] by (auto simp: view_def maps_def Let_def split: option.split)
  then show "view e tg M f (l(p := c)) = view e tg M f l" by blast
qed

text \<open>A line with the content of memory is mapped at an entry that is not present.\<close>

lemma map_clean_coherent:
  assumes env: "env_ok e" and coh: "coherent e tg M f l" and un: "\<And>x. \<not> maps e f x p"
    and ab: "\<not> pte_present (f (pte_ptr e mm0 a0))"
    and v: "pte_present v" "pte_to_pcache_meta (geom e) v = Some p" and c: "l p = M (tg mm0) (a0 AND PAGE_MASK)"
  shows "coherent e tg M (f(pte_ptr e mm0 a0 := v)) l" and "view e tg M (f(pte_ptr e mm0 a0 := v)) l = view e tg M f l"
proof -
  let ?x = "pte_ptr e mm0 a0" and ?f = "f(pte_ptr e mm0 a0 := v)"
  have mf: "maps e ?f y q \<longleftrightarrow> (if y = ?x then q = p else maps e f y q)" for y q using v by (auto simp: maps_upd)
  have key: "M (tg mm) (a AND PAGE_MASK) = l p" if "pte_ptr e mm a = ?x" for mm a
    using page_walkD(3) [OF env that] c by simp
  show "coherent e tg M ?f l"
    unfolding coherent_def mf using coherentD [OF coh] key un v(1) by (auto simp del: pte_present_bit split: if_splits)
  have "view e tg M ?f l mm a = view e tg M f l mm a" for mm a
  proof (cases "pte_ptr e mm a = ?x")
    case True
    have "maps e ?f (pte_ptr e mm a) p" using True by (simp add: mf)
    moreover have "\<not> (\<exists>q. maps e f (pte_ptr e mm a) q)" using True ab by (simp add: maps_def)
    ultimately show ?thesis using view_maps view_memory key [OF True] by metis
  next
    case False
    then show ?thesis by (simp add: view_def)
  qed
  then show "view e tg M ?f l = view e tg M f l" by blast
qed

text \<open>An entry moves from a line to a private copy of it, which is dirty from the start.\<close>

lemma copy_line_coherent:
  assumes env: "env_ok e" and coh: "coherent e tg M f l" and un: "\<And>y. \<not> maps e f y new" and m: "maps e f x old"
    and v: "pte_present v" "pte_to_pcache_meta (geom e) v = Some new" "pte_dirty v"
  shows "coherent e tg M (f(x := v)) (l(new := l old))" and "view e tg M (f(x := v)) (l(new := l old)) = view e tg M f l"
proof -
  let ?f = "f(x := v)" and ?l = "l(new := l old)"
  have ne: "old \<noteq> new" using un m by blast
  have mf: "maps e ?f y q \<longleftrightarrow> (if y = x then q = new else maps e f y q)" for y q using v by (auto simp: maps_upd)
  have same: "y \<noteq> x" "f y = ?f y" if "\<not> pte_dirty (?f y) \<or> \<not> pte_present (?f y)" for y
    using that v by (cases "y = x"; simp)+
  show "coherent e tg M ?f ?l"
  proof (rule coherentI)
    fix mm a q assume q: "maps e ?f (pte_ptr e mm a) q" "\<not> pte_dirty (?f (pte_ptr e mm a))"
    then have "maps e f (pte_ptr e mm a) q" "\<not> pte_dirty (f (pte_ptr e mm a))"
      using same [of "pte_ptr e mm a"] unfolding mf by metis+
    then show "?l q = M (tg mm) (a AND PAGE_MASK)" using coherentD(1) [OF coh] un by (metis fun_upd_other)
  next
    fix mm a assume "\<not> pte_present (?f (pte_ptr e mm a))" "pte_zerofill (?f (pte_ptr e mm a))"
    then show "M (tg mm) (a AND PAGE_MASK) = replicate (unat (PCACHE_LINE_SIZE (pconfig (geom e)))) 0"
      using coherentD(2) [OF coh] same [of "pte_ptr e mm a"] by metis
  next
    fix y z q assume a: "maps e ?f y q" "pte_write (?f y)" "maps e ?f z q"
    show "z = y"
    proof (cases "q = new")
      case True
      then show ?thesis using a(1,3) un unfolding mf by metis
    next
      case False
      then have "maps e f y q" "maps e f z q" "f y = ?f y" using a(1,3) unfolding mf by (metis fun_upd_other)+
      then show ?thesis using coherentD(3) [OF coh] a(2) by metis
    qed
  qed
  have "view e tg M ?f ?l mm a = view e tg M f l mm a" for mm a
  proof (cases "pte_ptr e mm a = x")
    case True
    have "maps e ?f (pte_ptr e mm a) new" "maps e f (pte_ptr e mm a) old" using True m by (simp_all add: mf)
    then show ?thesis using view_maps [of e ?f mm a new tg M ?l] view_maps [of e f mm a old tg M l] by simp
  next
    case False
    then show ?thesis using un [of "pte_ptr e mm a"] by (auto simp: view_def maps_def Let_def split: option.split)
  qed
  then show "view e tg M ?f ?l = view e tg M f l" by blast
qed

text \<open>The only entry of a line is made dirty and writable.\<close>

lemma reuse_line_coherent:
  assumes coh: "coherent e tg M f l" and m: "maps e f x p" and only: "\<And>y. maps e f y p \<Longrightarrow> y = x"
    and v: "pte_present v" "pte_to_pcache_meta (geom e) v = Some p" "pte_dirty v"
  shows "coherent e tg M (f(x := v)) l" and "view e tg M (f(x := v)) l = view e tg M f l"
proof -
  let ?f = "f(x := v)"
  have mf: "maps e ?f y q \<longleftrightarrow> maps e f y q" for y q using v m by (auto simp: maps_upd maps_def)
  have same: "f y = ?f y" if "\<not> pte_dirty (?f y) \<or> \<not> pte_present (?f y)" for y
    using that v by (cases "y = x"; simp)+
  show "coherent e tg M ?f l"
  proof (rule coherentI)
    fix mm a q assume "maps e ?f (pte_ptr e mm a) q" "\<not> pte_dirty (?f (pte_ptr e mm a))"
    then show "l q = M (tg mm) (a AND PAGE_MASK)" using coherentD(1) [OF coh] same unfolding mf by metis
  next
    fix mm a assume "\<not> pte_present (?f (pte_ptr e mm a))" "pte_zerofill (?f (pte_ptr e mm a))"
    then show "M (tg mm) (a AND PAGE_MASK) = replicate (unat (PCACHE_LINE_SIZE (pconfig (geom e)))) 0"
      using coherentD(2) [OF coh] same by metis
  next
    fix y z q assume a: "maps e ?f y q" "pte_write (?f y)" "maps e ?f z q"
    show "z = y"
    proof (cases "y = x")
      case True
      then have "q = p" using a(1) maps_unique [OF m] unfolding mf by metis
      then show ?thesis using only True a(3) unfolding mf by blast
    next
      case False
      then show ?thesis using coherentD(3) [OF coh] a unfolding mf by (metis fun_upd_other)
    qed
  qed
  have "view e tg M ?f l mm a = view e tg M f l mm a" for mm a
  proof (cases "\<exists>q. maps e f (pte_ptr e mm a) q")
    case True
    then obtain q where q: "maps e f (pte_ptr e mm a) q" by blast
    then show ?thesis unfolding view_maps [OF q] by (rule view_maps [OF mf [THEN iffD2]])
  next
    case False
    then show ?thesis unfolding view_memory [OF False] by (intro view_memory) (simp only: mf not_False_eq_True)
  qed
  then show "view e tg M ?f l = view e tg M f l" by blast
qed

subsection \<open>The victim of an allocation\<close>

definition owners_ok :: "penv \<Rightarrow> (nat \<Rightarrow> nat) \<Rightarrow> pstate \<Rightarrow> bool" where
  "owners_ok e tg s \<longleftrightarrow>
     (\<forall>p < nl e. \<forall>r \<in> set (rmap (meta s p)). tgid (task e (owner_process r)) = tg (owner_mm r))"

definition written_back :: "penv \<Rightarrow> nat \<Rightarrow> pstate \<Rightarrow> pages \<Rightarrow> pages" where
  "written_back e p s M = (case rmap (meta s p) of [] \<Rightarrow> M
     | r # _ \<Rightarrow> if evict_dirty r s
         then put_page \<lparr>fl_pid = tgid (task e (owner_process r)), fl_user_va = rm_address r, fl_pcacheline = line s p\<rparr> M else M)"

lemma line_mask_page: "env_ok e \<Longrightarrow> PCACHE_LINE_MASK (pconfig (geom e)) = PAGE_MASK"
  by (simp add: env_ok_def line_mask_eq PAGE_MASK_def)

lemma alloc_victim:
  assumes inv: "pinv e L H None s" and p: "p < nl e" and a: "alloc_effect e pbo p B s s1"
  obtains (none) "rmap (meta s p) = []" "ptes s1 = ptes s" "B = None" "net s1 = net s"
  | (one) r where "rmap (meta s p) = [r]" "rmap_ok e s p r" "ptes s1 = (ptes s)(page_table r := 0)"
      "if evict_dirty r s \<and> pbo = ENABLE_PIGGYBACK then B = Some p \<and> net s1 = net s \<and> pb (meta s1 p) = evict_pb e r
       else B = None \<and> net s1 = net s @ (if evict_dirty r s then [evict_flush e p r s] else [])"
proof -
  have lp: "line_ok e L H None s p" by (rule line_okD [OF pinvD(3) [OF inv] p])
  consider "B = None" "in_free e s p" "ptes s1 = ptes s" "net s1 = net s"
    | r where "rmap (meta s p) = [r]" "ptes s1 = (ptes s)(page_table r := 0)"
      "if evict_dirty r s \<and> pbo = ENABLE_PIGGYBACK then B = Some p \<and> net s1 = net s \<and> pb (meta s1 p) = evict_pb e r
       else B = None \<and> net s1 = net s @ (if evict_dirty r s then [evict_flush e p r s] else [])"
    using a unfolding alloc_effect_def by blast
  then show ?thesis
  proof cases
    case 1
    then show ?thesis using none lp by (simp add: line_ok_def)
  next
    case (2 r)
    have "rmap_ok e s p r" using lp 2(1) by (simp add: line_ok_def meta_ok_def Let_def)
    then show ?thesis using one [OF 2(1) _ 2(2,3)] by simp
  qed
qed

lemma victim_coherent:
  assumes inv: "pinv e L H None s" and p: "p < nl e" and a: "alloc_effect e pbo p B s s1"
    and own: "owners_ok e tg s" and tg: "inj tg" and coh: "coherent e tg M (ptes s) (line s)"
  shows "coherent e tg (written_back e p s M) (ptes s1) (line s)"
    and "view e tg (written_back e p s M) (ptes s1) (line s) = view e tg M (ptes s) (line s)"
    and "\<not> maps e (ptes s1) x p"
    and "ptes s1 x = ptes s x \<or> ptes s1 x = 0"
proof -
  have env: "env_ok e" by (rule pinvD(1) [OF inv])
  have ret: "\<exists>r \<in> set (rmap (meta s p)). page_table r = y" if "maps e (ptes s) y p" for y
    using pinvD(5) [OF inv] that by (simp add: ptes_ok_def maps_line_maps)
  have "coherent e tg (written_back e p s M) (ptes s1) (line s) \<and>
      view e tg (written_back e p s M) (ptes s1) (line s) = view e tg M (ptes s) (line s) \<and>
      (\<forall>x. \<not> maps e (ptes s1) x p) \<and> (\<forall>x. ptes s1 x = ptes s x \<or> ptes s1 x = 0)"
  proof (cases rule: alloc_victim [OF inv p a, case_names none one])
    case none
    then show ?thesis using coh ret by (auto simp: written_back_def)
  next
    case (one r)
    have r: "page_table r = pte_ptr e (owner_mm r) (rm_address r)" "maps e (ptes s) (pte_ptr e (owner_mm r) (rm_address r)) p"
       "rm_address r AND PAGE_MASK = rm_address r"
      using one(2) by (simp_all add: rmap_ok_def maps_line_maps)
    have o: "tgid (task e (owner_process r)) = tg (owner_mm r)" using own p one(1) by (simp add: owners_ok_def)
    let ?b = "\<lparr>fl_pid = tgid (task e (owner_process r)), fl_user_va = rm_address r, fl_pcacheline = line s p\<rparr>"
    have wb: "written_back e p s M = (if pte_dirty (ptes s (pte_ptr e (owner_mm r) (rm_address r))) then put_page ?b M else M)"
      using one(1) r(1) by (simp add: written_back_def evict_dirty_def)
    have "coherent e tg (written_back e p s M) (ptes s1) (line s)"
      "view e tg (written_back e p s M) (ptes s1) (line s) = view e tg M (ptes s) (line s)"
      unfolding one(3) r(1) by (rule writeback_coherent [OF env tg coh r(2) _ _ _ wb]; simp add: o r(3))+
    moreover have "\<not> maps e (ptes s1) y p" for y using ret [of y] one(1) by (auto simp: one(3) maps_upd)
    moreover have "ptes s1 y = ptes s y \<or> ptes s1 y = 0" for y by (simp add: one(3))
    ultimately show ?thesis by blast
  qed
  then show "coherent e tg (written_back e p s M) (ptes s1) (line s)"
    "view e tg (written_back e p s M) (ptes s1) (line s) = view e tg M (ptes s) (line s)"
    "\<not> maps e (ptes s1) x p" "ptes s1 x = ptes s x \<or> ptes s1 x = 0" by blast+
qed

text \<open>The messages sent up to the fill have the effect of the write-back, piggybacked or not.\<close>

lemma no_piggyback_memory:
  assumes inv: "pinv e L H None s" and p: "p < nl e" and a: "alloc_effect e pbo p None s s1"
  shows "memory M (net s1) = written_back e p s (memory M (net s))"
proof (cases rule: alloc_victim [OF inv p a, case_names none one])
  case none
  then show ?thesis by (simp add: written_back_def)
next
  case (one r)
  then have "rm_address r AND PAGE_MASK = rm_address r" by (simp add: rmap_ok_def)
  then show ?thesis
    using one(1,4) line_mask_page [OF pinvD(1) [OF inv]] by (auto simp: written_back_def evict_flush_def split: if_splits)
qed

lemma fill_request_memory:
  assumes inv: "pinv e L H None s" and p: "p < nl e" and a: "alloc_effect e ENABLE_PIGGYBACK p B s s1"
    and b: "B = None \<or> B = Some p" and t: "net t = net s1" "meta t p = meta s1 p" "line t = line s"
    and bit: "PC_piggyback \<in> bits (meta s1 p) \<longleftrightarrow> B = Some p"
  shows "memory M (net t @ fill_request e address flags p t) = written_back e p s (memory M (net s))"
proof (cases "B = None")
  case True
  then show ?thesis using no_piggyback_memory [OF inv p a [unfolded True], of M] t bit
    by (simp add: fill_request_def memory_append)
next
  case False
  then have B: "B = Some p" using b by blast
  show ?thesis
  proof (cases rule: alloc_victim [OF inv p a, case_names none one])
    case (one r)
    have ra: "rm_address r AND PAGE_MASK = rm_address r" using one(2) by (simp add: rmap_ok_def)
    have "evict_dirty r s" "net s1 = net s" "pb (meta s1 p) = evict_pb e r" using one(4) B by (auto split: if_splits)
    then show ?thesis using one(1) t bit B ra line_mask_page [OF pinvD(1) [OF inv]]
      by (simp add: fill_request_def memory_append written_back_def piggyback_flush_def evict_pb_def Let_def)
  qed (use B in simp)
qed

text \<open>The answer to the request is the page.\<close>

lemma fill_request_reply:
  assumes srv: "serves_pages e M0" and ok: "int (unat (PCACHE_LINE_SIZE (pconfig (geom e)))) \<le> fst (reply e (h @ fill_request e address flags p t))"
  shows "snd (reply e (h @ fill_request e address flags p t)) =
    memory M0 (h @ fill_request e address flags p t) (tgid (task e (current e))) (address AND PAGE_MASK)"
proof -
  let ?r = "fill_request e address flags p t"
  have "?r = butlast ?r @ [last ?r]" "miss_of (last ?r) = Some (miss_msg e address flags)"
    by (simp_all add: fill_request_def Let_def)
  then obtain h' msg where "?r = h' @ [msg]" "miss_of msg = Some (miss_msg e address flags)" by blast
  then show ?thesis using srv ok unfolding serves_pages_def by (metis append.assoc miss_msg_def p2m_pcache_miss_msg.select_convs(2,4))
qed

subsection \<open>Faults\<close>

definition pview :: "penv \<Rightarrow> (nat \<Rightarrow> nat) \<Rightarrow> pages \<Rightarrow> pstate \<Rightarrow> nat \<Rightarrow> u64 \<Rightarrow> line_data" where
  "pview e tg M0 s = view e tg (memory M0 (net s)) (ptes s) (line s)"

definition cache_coherent :: "penv \<Rightarrow> (nat \<Rightarrow> nat) \<Rightarrow> pages \<Rightarrow> pstate \<Rightarrow> bool" where
  "cache_coherent e tg M0 s \<longleftrightarrow> coherent e tg (memory M0 (net s)) (ptes s) (line s) \<and> owners_ok e tg s"

text \<open>
  The setting: no interference by other CPUs, a memory component that serves the pages, and
  thread groups that correspond to address spaces.
\<close>

definition process_context :: "penv \<Rightarrow> (nat \<Rightarrow> nat) \<Rightarrow> pages \<Rightarrow> nat \<Rightarrow> bool" where
  "process_context e tg M0 mm \<longleftrightarrow> (\<forall>s. others e s = s) \<and> serves_pages e M0 \<and> inj tg \<and>
     tgid (task e (current e)) = tg mm \<and> tgid (task e (group_leader (task e (current e)))) = tg mm"

lemma owners_refilled:
  assumes "owners_ok e tg s" "\<And>q. q \<noteq> p \<Longrightarrow> meta s' q = meta s q"
    "\<And>r. r \<in> set (rmap (meta s' p)) \<Longrightarrow> tgid (task e (owner_process r)) = tg (owner_mm r)"
  shows "owners_ok e tg s'"
  unfolding owners_ok_def
proof (intro allI ballI impI)
  fix q r assume "q < nl e" "r \<in> set (rmap (meta s' q))"
  then show "tgid (task e (owner_process r)) = tg (owner_mm r)"
    using assms unfolding owners_ok_def by (cases "q = p") auto
qed

lemma memory_frames:
  "same_memory s s' \<Longrightarrow> pview e tg M0 s' = pview e tg M0 s" "same_memory s s' \<Longrightarrow> meta s' = meta s \<Longrightarrow> cache_coherent e tg M0 s' = cache_coherent e tg M0 s"
  by (simp_all add: pview_def cache_coherent_def same_memory_def owners_ok_def)

text \<open>The end of both fills: the evicted state, and a line that holds the page or is free again.\<close>

lemma refilled:
  assumes inv: "pinv e {} {} None s" and p: "p < nl e" and a: "alloc_effect e pbo p B s s1" and ctx: "inj tg"
    and cc: "cache_coherent e tg M0 s" and M: "memory M0 (net t) = written_back e p s (memory M0 (net s))"
    and l: "line t = (line s)(p := c)" and mt: "\<And>q. q \<noteq> p \<Longrightarrow> meta t q = meta s1 q"
    and owns: "\<And>r. r \<in> set (rmap (meta t p)) \<Longrightarrow> tgid (task e (owner_process r)) = tg (owner_mm r)"
    and pt: "ptes t = ptes s1 \<or> (\<exists>v. ptes t = (ptes s1)(pte_ptr e mm a := v) \<and> pte_present v \<and> pte_to_pcache_meta (geom e) v = Some p) \<and>
       \<not> pte_present (ptes s (pte_ptr e mm a)) \<and> c = memory M0 (net t) (tg mm) (a AND PAGE_MASK)"
  shows "cache_coherent e tg M0 t \<and> pview e tg M0 t = pview e tg M0 s"
proof -
  have own: "owners_ok e tg s" and coh: "coherent e tg (memory M0 (net s)) (ptes s) (line s)"
    using cc by (simp_all add: cache_coherent_def)
  have env: "env_ok e" by (rule pinvD(1) [OF inv])
  let ?M = "memory M0 (net t)"
  note vc = victim_coherent [OF inv p a own ctx coh, folded M]
  note un = unmapped_line_coherent [of e "ptes s1" p tg ?M "line s" c, OF vc(3), folded l]
  have c1: "coherent e tg ?M (ptes s1) (line t)" "view e tg ?M (ptes s1) (line t) = pview e tg M0 s"
    using un(1) [OF vc(1)] un(2) vc(2) by (simp_all add: pview_def)
  have "coherent e tg ?M (ptes t) (line t) \<and> view e tg ?M (ptes t) (line t) = pview e tg M0 s"
    using pt
  proof
    assume "ptes t = ptes s1"
    then show ?thesis using c1 by simp
  next
    assume "(\<exists>v. ptes t = (ptes s1)(pte_ptr e mm a := v) \<and> pte_present v \<and> pte_to_pcache_meta (geom e) v = Some p) \<and>
       \<not> pte_present (ptes s (pte_ptr e mm a)) \<and> c = memory M0 (net t) (tg mm) (a AND PAGE_MASK)"
    then obtain v where v: "ptes t = (ptes s1)(pte_ptr e mm a := v)" "pte_present v" "pte_to_pcache_meta (geom e) v = Some p"
      and ab: "\<not> pte_present (ptes s (pte_ptr e mm a))" and c: "c = ?M (tg mm) (a AND PAGE_MASK)" by blast
    have ab1: "\<not> pte_present (ptes s1 (pte_ptr e mm a))" using ab vc(4) [of "pte_ptr e mm a"] by auto
    have lc: "line t p = ?M (tg mm) (a AND PAGE_MASK)" using l c by simp
    show ?thesis using map_clean_coherent [OF env c1(1) vc(3) ab1 v(2,3) lc] c1(2) v(1) by simp
  qed
  moreover have "owners_ok e tg t"
  proof (rule owners_refilled [OF own _ owns])
    show "meta t q = meta s q" if "q \<noteq> p" for q using mt [OF that] a that by (simp add: alloc_effect_def)
  qed
  ultimately show ?thesis by (simp add: cache_coherent_def pview_def)
qed

lemma alloc_absent:
  assumes inv: "pinv e {} {} None s" and a: "alloc_effect e pbo p B s s1" "pinv e {} {p} B s1" and ab: "\<not> pte_present (ptes s ptep)"
  shows "ptes s1 ptep = ptes s ptep"
proof -
  have p: "p < nl e" using pinvD(8) [OF a(2)] by simp
  show ?thesis
    by (cases rule: alloc_victim [OF inv p a(1), case_names none one]) (use ab in \<open>auto simp: rmap_ok_def maps_line_def\<close>)
qed

lemma fill_page_coherent:
  assumes inv: "pinv e {} {} None s" and ctx: "fault_context e mm" "process_context e tg M0 mm" and lk: "ptl_held s = {}"
    and ab: "\<not> pte_present (ptes s (pte_ptr e mm address))" and cc: "cache_coherent e tg M0 s"
    and res: "pcache_do_fill_page e mm address (ptes s (pte_ptr e mm address)) flags s = Some (ret, t)"
  shows "cache_coherent e tg M0 t \<and> pview e tg M0 t = pview e tg M0 s"
proof -
  let ?ptep = "pte_ptr e mm address"
  have c: "others_ok e" "0 < alloc_rounds e" "thread_group_leader e (group_leader (task e (current e)))" and o: "others e s = s" for s
    using ctx by (simp_all add: fault_context_def process_context_def)
  have srv: "serves_pages e M0" and tg: "inj tg" and me: "tgid (task e (current e)) = tg mm" "tgid (task e (group_leader (task e (current e)))) = tg mm"
    using ctx(2) by (simp_all add: process_context_def)
  have lk': "pte_lockptr e mm address \<notin> ptl_held s" using lk by simp
  let ?t = "\<lambda>s1. s1\<lparr>ptl_held := insert (pte_lockptr e mm address) (ptl_held s)\<rparr>"
  have sent: "memory M0 (net u) = written_back e p s (memory M0 (net s))" "line u = (line s)(p := snd (reply e (net u)))" "p < nl e"
    if "alloc_effect e ENABLE_PIGGYBACK p B s s1" "pinv e {} (insert p {}) B s1" "B = None \<or> B = Some p" "remote_filled e ok address flags p (?t s1) u"
    for p B s1 u ok
  proof -
    show p: "p < nl e" using pinvD(8) [OF that(2)] by simp
    have "PC_piggyback \<in> bits (meta s1 p) \<longleftrightarrow> B = Some p" using line_okD [OF pinvD(3) [OF that(2)] p] by (simp add: line_ok_def)
    then show "memory M0 (net u) = written_back e p s (memory M0 (net s))" "line u = (line s)(p := snd (reply e (net u)))"
      using fill_request_memory [OF inv p that(1,3), of "?t s1" M0 address flags] that(1,4) by (simp_all add: remote_filled_def alloc_effect_def)
  qed
  note alike = alloc_absent [OF inv _ _ ab]
  let ?c = "common_do_fill_page e mm address (ptes s ?ptep) flags (pcache_do_fill_page_remote e) RMAP_FILL_PAGE_REMOTE ENABLE_PIGGYBACK s"
  have res': "?c = Some (ret, t)" using res by (simp add: pcache_do_fill_page_def)
  show ?thesis
  proof (rule remote.common_fill_cases [OF inv c(1,2) refl unlocked_victim [OF lk] lk' ab c(3), of flags RMAP_FILL_PAGE_REMOTE], goal_cases)
    case (1 s')
    then show ?case using res' cc memory_frames [of s s' e tg M0] by simp
  next
    case (2 p B s1 s')
    then show ?case using alike [of ENABLE_PIGGYBACK p B s1] by (simp add: o)
  next
    case (3 p B s1 u s')
    have t: "t = s'" using res' 3(1) by simp
    have B: "B = None \<or> B = Some p" using pinvD(9) [OF 3(5)] by (cases B) auto
    note st = sent [OF 3(4,5) B 3(6) [unfolded o]]
    show ?case unfolding t
      by (rule refilled [OF inv st(3) 3(4) tg cc, where c = "snd (reply e (net u))"])
        (use st 3(7-11) in \<open>simp_all add: o\<close>)
  next
    case (4 p B s1 u v s')
    have t: "t = s'" using res' 4(1) by simp
    have B: "B = None \<or> B = Some p" using pinvD(9) [OF 4(14)] by (cases B) auto
    note st = sent [OF 4(4,14) B 4(7) [unfolded o]]
    have net: "net u = net s1 @ fill_request e address flags p (?t s1)"
      and ok: "int (unat (PCACHE_LINE_SIZE (pconfig (geom e)))) \<le> fst (reply e (net u))"
      using 4(7) unfolding remote_filled_def o by (simp, blast)
    have v: "pte_present v" "pte_to_pcache_meta (geom e) v = Some p" using 4(8,12) by (simp_all add: maps_line_def)
    show ?case unfolding t
      by (rule refilled [OF inv st(3) 4(4) tg cc, where c = "snd (reply e (net u))" and mm = mm and a = address])
        (use st 4(9-15) v ab fill_request_reply [OF srv ok [unfolded net]] me net in \<open>auto simp: o\<close>)
  qed
qed

lemma zerofill_page_coherent:
  assumes inv: "pinv e {} {} None s" and ctx: "fault_context e mm" "process_context e tg M0 mm" and lk: "ptl_held s = {}"
    and ab: "\<not> pte_present (ptes s (pte_ptr e mm address))" and zf: "pte_zerofill (ptes s (pte_ptr e mm address))"
    and cc: "cache_coherent e tg M0 s"
    and res: "common_do_fill_page e mm address (ptes s (pte_ptr e mm address)) flags (pcache_do_zerofill e) RMAP_ZEROFILL DISABLE_PIGGYBACK s = Some (ret, t)"
  shows "cache_coherent e tg M0 t \<and> pview e tg M0 t = pview e tg M0 s"
proof -
  let ?ptep = "pte_ptr e mm address"
  have c: "others_ok e" "0 < alloc_rounds e" "thread_group_leader e (group_leader (task e (current e)))" and o: "others e s = s" for s
    using ctx by (simp_all add: fault_context_def process_context_def)
  have tg: "inj tg" and me: "tgid (task e (group_leader (task e (current e)))) = tg mm"
    using ctx(2) by (simp_all add: process_context_def)
  have own: "owners_ok e tg s" and coh: "coherent e tg (memory M0 (net s)) (ptes s) (line s)"
    using cc by (simp_all add: cache_coherent_def)
  have lk': "pte_lockptr e mm address \<notin> ptl_held s" using lk by simp
  note alike = alloc_absent [OF inv _ _ ab]
  show ?thesis
  proof (rule zero.common_fill_cases [OF inv c(1,2) refl unlocked_victim [OF lk] lk' ab c(3), of flags RMAP_ZEROFILL], goal_cases)
    case (1 s')
    then show ?case using res cc memory_frames [of s s' e tg M0] by simp
  next
    case (2 p B s1 s')
    then show ?case using alike [of DISABLE_PIGGYBACK p B s1] by (simp add: o)
  next
    case (3 p B s1 u s')
    then show ?case by (simp add: zero_filled_def)
  next
    case (4 p B s1 u v s')
    have t: "t = s'" using res 4(1) by simp
    have B: "B = None" using 4(6) by simp
    have p: "p < nl e" using pinvD(8) [OF 4(14)] by simp
    have u: "net u = net s1" "line u = (line s1)(p := replicate (unat (PCACHE_LINE_SIZE (pconfig (geom e)))) 0)"
      using 4(7) by (simp_all add: zero_filled_def o)
    have M: "memory M0 (net t) = written_back e p s (memory M0 (net s))"
      using no_piggyback_memory [OF inv p 4(4) [unfolded B], of M0] 4(10) u t by simp
    have z: "memory M0 (net t) (tg mm) (address AND PAGE_MASK) = replicate (unat (PCACHE_LINE_SIZE (pconfig (geom e)))) 0"
      unfolding M by (rule coherentD(2) [OF victim_coherent(1) [OF inv p 4(4) own tg coh]]) (use alike [OF 4(4,14)] ab zf in simp_all)
    have l: "line t = (line s)(p := replicate (unat (PCACHE_LINE_SIZE (pconfig (geom e)))) 0)"
      using 4(4,9) u t by (simp add: alloc_effect_def)
    have v: "pte_present v" "pte_to_pcache_meta (geom e) v = Some p" using 4(8,12) by (simp_all add: maps_line_def)
    show ?case
      by (rule refilled [OF inv p 4(4) tg cc M l, where mm = mm and a = address]) (use 4(11-15) v ab z me in \<open>auto simp: o t\<close>)
  qed
qed

text \<open>Write protection faults, where the handler does not wait for its own lock.\<close>

lemma wp_page_coherent:
  assumes inv: "pinv e {} {} None s" and ctx: "fault_context e mm" "process_context e tg M0 mm"
    and m: "maps_line e s (pte_ptr e mm address) old" and cc: "cache_coherent e tg M0 s"
    and res: "pcache_do_wp_page e mm address (pte_ptr e mm address) l (ptes s (pte_ptr e mm address)) s = Some (ret, t)"
  shows "cache_coherent e tg M0 t \<and> pview e tg M0 t = pview e tg M0 s"
proof -
  let ?ptep = "pte_ptr e mm address"
  have c: "0 < alloc_rounds e" "thread_group_leader e (group_leader (task e (current e)))" "mm = task_mm (task e (current e))"
    using ctx by (simp_all add: fault_context_def)
  have tg: "inj tg" and me: "tgid (task e (group_leader (task e (current e)))) = tg mm"
    using ctx(2) by (simp_all add: process_context_def)
  have own: "owners_ok e tg s" and coh: "coherent e tg (memory M0 (net s)) (ptes s) (line s)"
    using cc by (simp_all add: cache_coherent_def)
  have env: "env_ok e" and old: "old < nl e" using pinvD(1) [OF inv] frame_in_line(1) [OF pinvD(1) [OF inv]] m by (auto simp: maps_line_def)
  have mp: "maps e (ptes s) ?ptep old" using m by (simp add: maps_line_maps)
  have ptl: "victim_unlocked e (user_vaddr_to_pcache_set (geom e) address) (SetPcache PC_locked old s)" if "mapcount (meta s old) \<noteq> 1"
    using pcache_do_wp_page_deadlock [OF inv _ m refl that refl, of l] res by auto
  show ?thesis
  proof (rule pcache_do_wp_page_cases [OF inv _ m refl c(3,1) refl ptl c(2), of l], goal_cases)
    case (3 s')
    let ?v = "pte_mkwrite (pte_mkdirty (pte_mkyoung (ptes s ?ptep)))"
    have t: "t = s'" using res 3(1) by simp
    have only: "y = ?ptep" if "maps e (ptes s) y old" for y
    proof -
      have "length (rmap (meta s old)) = 1"
        using 3(4) line_okD [OF pinvD(3) [OF inv] old] by (simp add: line_ok_def meta_ok_def Let_def)
      then obtain r where "rmap (meta s old) = [r]" by (auto simp: length_Suc_conv)
      then have "page_table r = z" if "maps e (ptes s) z old" for z
        using pinvD(5) [OF inv] that unfolding ptes_ok_def maps_line_maps by force
      then show ?thesis using that mp by blast
    qed
    have v: "pte_present ?v" "pte_to_pcache_meta (geom e) ?v = Some old" "pte_dirty ?v"
      using mp pte_same_frame [of ?v "ptes s ?ptep" "geom e"] by (simp_all add: maps_def)
    note r = reuse_line_coherent [OF coh mp only v]
    then show ?case using 3(5-8) own unfolding t by (simp add: cache_coherent_def pview_def owners_ok_def)
  next
    case (4 s')
    then show ?case using res cc by (simp add: cache_coherent_def pview_def owners_ok_def)
  next
    case (5 new s1 v s')
    let ?sl = "SetPcache PC_locked old s"
    have t: "t = s'" using res 5(1) by simp
    have f: "ptes ?sl = ptes s" "line ?sl = line s" "net ?sl = net s" "rmap (meta ?sl q) = rmap (meta s q)" for q
      by (simp_all add: pc_defs)
    have sl: "pinv e {old} {} None ?sl" by (rule wp_page_start(1) [OF inv _ m refl]) simp
    have new: "new < nl e" using frame_in_line(1) [OF env] 5(5) unfolding maps_line_def by blast
    have own': "owners_ok e tg ?sl" and coh': "coherent e tg (memory M0 (net ?sl)) (ptes ?sl) (line ?sl)"
      using own coh by (simp_all add: owners_ok_def f)
    have M: "memory M0 (net t) = written_back e new ?sl (memory M0 (net ?sl))"
      using no_piggyback_memory [OF sl new 5(12), of M0] 5(14) t by simp
    note vc = victim_coherent [OF sl new 5(12) own' tg coh', folded M, unfolded f]
    have m1: "maps e (ptes s1) ?ptep old"
      using alloc_keeps_maps(2) [OF sl 5(12), of ?ptep old] m 5(6) by (simp add: maps_line_def maps_def f)
    have v: "pte_present v" "pte_to_pcache_meta (geom e) v = Some new" "pte_dirty v"
      using 5(5,9,13) by (simp_all add: maps_line_def)
    note cp = copy_line_coherent [OF env vc(1,3) m1 v]
    have "owners_ok e tg t"
      unfolding owners_ok_def
    proof (intro allI ballI impI)
      fix q r assume q: "q < nl e" "r \<in> set (rmap (meta t q))"
      show "tgid (task e (owner_process r)) = tg (owner_mm r)"
      proof (cases "q = new")
        case True
        then show ?thesis using 5(15) [of r] q(2) me t by simp
      next
        case False
        then show ?thesis using 5(16) [of q] q own t unfolding owners_ok_def by blast
      qed
    qed
    then show ?case using cp vc(2) 5(10,13) t by (simp add: cache_coherent_def pview_def f)
  qed simp_all
qed

lemma pcache_handle_fault_coherent:
  assumes inv: "pinv e {} {} None s" and ctx: "fault_context e mm" "process_context e tg M0 mm" and lk: "ptl_held s = {}"
    and cc: "cache_coherent e tg M0 s" and res: "pcache_handle_fault e mm address flags s = Some (ret, t)"
  shows "cache_coherent e tg M0 t \<and> pview e tg M0 t = pview e tg M0 s"
proof -
  let ?ptep = "pte_ptr e mm address" and ?l = "pte_lockptr e mm address"
  have o: "others e s = s" for s using ctx(2) by (simp add: process_context_def)
  have frame: "cache_coherent e tg M0 (s\<lparr>ptl_held := h\<rparr>)" "pview e tg M0 (s\<lparr>ptl_held := h\<rparr>) = pview e tg M0 s" for h
    using cc by (simp_all add: cache_coherent_def pview_def owners_ok_def)
  consider (nomem) "t = s" | (fill) "\<not> pte_present (ptes s ?ptep)" "pcache_do_fill_page e mm address (ptes s ?ptep) flags s = Some (ret, t)"
    | (zero) "\<not> pte_present (ptes s ?ptep)" "pcache_do_zerofill_page e mm address (ptes s ?ptep) flags s = Some (ret, t)"
    | (spurious) "t = spin_unlock_ptl ?l (s\<lparr>ptl_held := {?l}\<rparr>)"
    | (wp) "pte_present (ptes s ?ptep)"
      "pcache_do_wp_page e mm address ?ptep ?l (ptes s ?ptep) (s\<lparr>ptl_held := {?l}\<rparr>) = Some (ret, t)"
    using res no_eviction_in_flight [OF inv] lk
    by (auto simp: pcache_handle_fault_def pcache_handle_pte_fault_def Let_def o spin_lock_ptl_def simp del: pte_present_bit pte_write_bit
        split: if_splits)
  then show ?thesis
  proof cases
    case nomem
    then show ?thesis using cc by simp
  next
    case fill
    then show ?thesis using fill_page_coherent [OF inv ctx lk _ cc] by blast
  next
    case zero
    show ?thesis
    proof (cases "pte_zerofill (ptes s ?ptep)")
      case True
      then show ?thesis using zerofill_page_coherent [OF inv ctx lk zero(1) True cc] zero(2) by (simp add: pcache_do_zerofill_page_def)
    next
      case False
      then show ?thesis using zero(2) cc by (simp add: pcache_do_zerofill_page_def)
    qed
  next
    case spurious
    then show ?thesis using frame by (simp add: spin_unlock_ptl_def)
  next
    case wp
    let ?u = "s\<lparr>ptl_held := {?l}\<rparr>"
    show ?thesis
    proof (cases "pte_to_pcache_meta (geom e) (ptes s ?ptep)")
      case None
      then have "t = spin_unlock_ptl ?l ?u" using wp(2) by (simp add: pcache_do_wp_page_def)
      then show ?thesis using frame by (simp add: spin_unlock_ptl_def)
    next
      case (Some old)
      then have m: "maps_line e ?u ?ptep old" using wp(1) by (simp add: maps_line_def del: pte_present_bit)
      have "cache_coherent e tg M0 t \<and> pview e tg M0 t = pview e tg M0 ?u"
        by (rule wp_page_coherent [OF _ ctx m frame(1), of ?l ret t]) (use inv wp(2) in simp_all)
      then show ?thesis using frame(2) by simp
    qed
  qed
qed

subsection \<open>Stores, the sweep, and unmapping\<close>

text \<open>
  A store by the processor through a writable entry: the line changes, and the page table walk
  has set the accessed and dirty bits. \<open>None\<close> is a fault.
\<close>

definition user_store :: "penv \<Rightarrow> nat \<Rightarrow> u64 \<Rightarrow> nat \<Rightarrow> 8 word \<Rightarrow> pstate \<Rightarrow> pstate option" where
  "user_store e mm a off b s = (let x = pte_ptr e mm a; v = ptes s x in
     if pte_present v \<and> pte_write v
     then map_option (\<lambda>p. s\<lparr>line := (line s)(p := (line s p)[off := b]), ptes := (ptes s)(x := pte_mkdirty (pte_mkyoung v))\<rparr>)
            (pte_to_pcache_meta (geom e) v)
     else None)"

lemma user_store_coherent:
  assumes inv: "pinv e L H B s" and cc: "cache_coherent e tg M0 s" and res: "user_store e mm a off b s = Some t"
  shows "pinv e L H B t" "cache_coherent e tg M0 t" "pview e tg M0 t mm' a' =
     (if mm' = mm \<and> a' AND PAGE_MASK = a AND PAGE_MASK then (pview e tg M0 s mm a)[off := b] else pview e tg M0 s mm' a')"
proof -
  let ?x = "pte_ptr e mm a" and ?v = "pte_mkdirty (pte_mkyoung (ptes s (pte_ptr e mm a)))"
  obtain p where m: "maps e (ptes s) ?x p" and w: "pte_write (ptes s ?x)"
    and t: "t = s\<lparr>line := (line s)(p := (line s p)[off := b]), ptes := (ptes s)(?x := ?v)\<rparr>"
    using res by (auto simp: user_store_def Let_def maps_def split: if_splits)
  have env: "env_ok e" by (rule pinvD(1) [OF inv])
  have coh: "coherent e tg (memory M0 (net s)) (ptes s) (line s)" and own: "owners_ok e tg s" using cc by (simp_all add: cache_coherent_def)
  have "pinv e L H B (s\<lparr>ptes := (ptes s)(?x := ?v)\<rparr>)" by (rule pinv_pte_flags [OF inv]) simp_all
  moreover have "t = (s\<lparr>ptes := (ptes s)(?x := ?v)\<rparr>)\<lparr>line := (line s)(p := (line s p)[off := b])\<rparr>" by (simp add: t)
  ultimately show "pinv e L H B t" by (simp only: pinv_frame)
  have only: "y = ?x" if "maps e (ptes s) y p" for y using coherentD(3) [OF coh m w that] .
  have v: "pte_present ?v" "pte_to_pcache_meta (geom e) ?v = Some p" "pte_dirty ?v"
    using m pte_same_frame [of ?v "ptes s ?x" "geom e"] by (simp_all add: maps_def)
  have mf: "maps e (ptes t) y q = maps e (ptes s) y q" for y q using v m by (auto simp: t maps_upd maps_def)
  have "coherent e tg (memory M0 (net s)) (ptes t) (line s)" using reuse_line_coherent(1) [OF coh m only v] by (simp add: t)
  moreover have "line t q = line s q" if "maps e (ptes t) y q" "y \<noteq> ?x" for y q using that only mf by (auto simp: t)
  moreover have "pte_dirty (ptes t ?x)" using v by (simp add: t)
  ultimately have "coherent e tg (memory M0 (net s)) (ptes t) (line t)" unfolding coherent_def by metis
  then show "cache_coherent e tg M0 t" using own by (simp add: cache_coherent_def t owners_ok_def)
  show "pview e tg M0 t mm' a' =
     (if mm' = mm \<and> a' AND PAGE_MASK = a AND PAGE_MASK then (pview e tg M0 s mm a)[off := b] else pview e tg M0 s mm' a')"
  proof (cases "pte_ptr e mm' a' = ?x")
    case True
    have "mm' = mm \<and> a' AND PAGE_MASK = a AND PAGE_MASK" using page_walkD(3) [OF env True] .
    moreover have "pview e tg M0 t mm' a' = line t p" using view_maps mf m True unfolding pview_def by metis
    moreover have "pview e tg M0 s mm a = line s p" using view_maps [OF m] unfolding pview_def by blast
    ultimately show ?thesis by (simp add: t)
  next
    case False
    then have "\<not> (mm' = mm \<and> a' AND PAGE_MASK = a AND PAGE_MASK)" using page_walkD(1) [OF env] by metis
    moreover have "pview e tg M0 t mm' a' = pview e tg M0 s mm' a'"
      using False only [of "pte_ptr e mm' a'"] by (auto simp: pview_def view_def t Let_def maps_def split: option.split)
    ultimately show ?thesis by auto
  qed
qed

text \<open>Reference bits do not matter.\<close>

lemma aged_coherent:
  assumes ag: "aged f g" and coh: "coherent e tg M f l"
  shows "coherent e tg M g l" and "view e tg M g l = view e tg M f l"
proof -
  have b: "pte_present (g x) = pte_present (f x)" "pte_dirty (g x) = pte_dirty (f x)" "pte_write (g x) = pte_write (f x)"
      "pte_zerofill (g x) = pte_zerofill (f x)" "pte_pfn (g x) = pte_pfn (f x)" for x
    using ag [unfolded aged_def, rule_format, of x] by auto
  have "pte_to_pcache_meta (geom e) (g x) = pte_to_pcache_meta (geom e) (f x)" for x by (rule pte_same_frame [OF b(5)])
  then have m: "maps e g = maps e f" and w: "view e tg M g l mm a = view e tg M f l mm a" for mm a
    using b(1) by (auto simp: maps_def fun_eq_iff view_def Let_def simp del: pte_present_bit)
  show "coherent e tg M g l" using coh unfolding coherent_def m b .
  show "view e tg M g l = view e tg M f l" using w by blast
qed

lemma sweep_coherent:
  assumes "sweep_effect s t" "cache_coherent e tg M0 s"
  shows "cache_coherent e tg M0 t" "pview e tg M0 t = pview e tg M0 s"
proof -
  have t: "aged (ptes s) (ptes t)" "line t = line s" "net t = net s" "meta t = meta s" using assms(1) by (simp_all add: sweep_effect_def)
  have "coherent e tg (memory M0 (net s)) (ptes s) (line s)" "owners_ok e tg s" using assms(2) by (simp_all add: cache_coherent_def)
  then show "cache_coherent e tg M0 t" "pview e tg M0 t = pview e tg M0 s"
    using aged_coherent [OF t(1)] t(2-4) by (simp_all add: cache_coherent_def pview_def owners_ok_def)
qed

text \<open>Clearing entries: the pages that are still mapped, and those that were not, look as before.\<close>

lemma cleared_coherent:
  assumes cl: "\<And>x. g x = f x \<or> g x = 0" and coh: "coherent e tg M f l"
  shows "coherent e tg M g l" and "g (pte_ptr e mm a) = f (pte_ptr e mm a) \<Longrightarrow> view e tg M g l mm a = view e tg M f l mm a"
proof -
  have m: "maps e f x p" "g x = f x" if "maps e g x p" for x p using cl [of x] that by (auto simp: maps_def)
  have z: "\<not> pte_zerofill 0" by simp
  show "coherent e tg M g l"
  proof (rule coherentI)
    fix mm a p assume "maps e g (pte_ptr e mm a) p" "\<not> pte_dirty (g (pte_ptr e mm a))"
    then show "l p = M (tg mm) (a AND PAGE_MASK)" using m coherentD(1) [OF coh] by metis
  next
    fix mm a assume "\<not> pte_present (g (pte_ptr e mm a))" "pte_zerofill (g (pte_ptr e mm a))"
    then show "M (tg mm) (a AND PAGE_MASK) = replicate (unat (PCACHE_LINE_SIZE (pconfig (geom e)))) 0"
      using z cl coherentD(2) [OF coh] by metis
  next
    fix x y p assume "maps e g x p" "pte_write (g x)" "maps e g y p"
    then show "y = x" using m coherentD(3) [OF coh] by metis
  qed
  show "view e tg M g l mm a = view e tg M f l mm a" if "g (pte_ptr e mm a) = f (pte_ptr e mm a)"
    using that by (simp add: view_def)
qed

lemma unmapped_coherent:
  assumes un: "unmapped e mm a b s t" and cc: "cache_coherent e tg M0 s"
  shows "cache_coherent e tg M0 t"
    and "(\<And>d. a \<le> d \<Longrightarrow> d < b \<Longrightarrow> pte_ptr e mm' c \<noteq> pte_ptr e mm d) \<Longrightarrow> pview e tg M0 t mm' c = pview e tg M0 s mm' c"
proof -
  have coh: "coherent e tg (memory M0 (net s)) (ptes s) (line s)" and own: "owners_ok e tg s" using cc by (simp_all add: cache_coherent_def)
  have t: "\<And>x. ptes t x = ptes s x \<or> ptes t x = 0" "line t = line s" "net t = net s" "\<And>p. set (rmap (meta t p)) \<subseteq> set (rmap (meta s p))"
    "\<And>x. (\<forall>c. a \<le> c \<and> c < b \<longrightarrow> x \<noteq> pte_ptr e mm c) \<Longrightarrow> ptes t x = ptes s x"
    using un unfolding unmapped_def by blast+
  note cl = cleared_coherent [OF t(1) coh]
  have "owners_ok e tg t" using own t(4) unfolding owners_ok_def by blast
  then show "cache_coherent e tg M0 t" using cl(1) t(2,3) by (simp add: cache_coherent_def)
  show "pview e tg M0 t mm' c = pview e tg M0 s mm' c" if "\<And>d. a \<le> d \<Longrightarrow> d < b \<Longrightarrow> pte_ptr e mm' c \<noteq> pte_ptr e mm d"
    using cl(2) [OF t(5)] that t(2,3) by (simp add: pview_def)
qed

subsection \<open>Fork\<close>

text \<open>
  A private writable mapping: parent and child share the lines, write protected, and the child
  sees what the parent sees, if memory has the pages of the parent for the child, too.
\<close>

lemma cow_not_shared: "is_cow_mapping flags \<Longrightarrow> flags AND VM_SHARED = 0"
proof -
  assume "is_cow_mapping flags"
  then have "flags AND (VM_SHARED OR VM_WRITE) = VM_WRITE" by (simp add: is_cow_mapping_def)
  from arg_cong [OF this, of "\<lambda>v. v AND VM_SHARED"] show ?thesis
    by (simp add: VM_SHARED_def VM_WRITE_def and.assoc)
qed

lemma cow_ptes:
  assumes "is_cow_mapping flags"
  shows "\<not> pte_write (parent_pte flags v)" "\<not> pte_write (child_pte flags v)" "pte_dirty (parent_pte flags v) = pte_dirty v"
    "pte_dirty (child_pte flags v) = pte_dirty v"
  using assms cow_not_shared [OF assms] by (simp_all add: parent_pte_def child_pte_def)

text \<open>Where a mapping of the copied state comes from.\<close>

lemma forked_maps:
  assumes fk: "forked e dst src proc flags lo hi s0 h hi t" and cow: "is_cow_mapping flags"
    and ab: "\<forall>d. lo \<le> d \<and> d < hi \<longrightarrow> \<not> pte_present (ptes s0 (pte_ptr e dst d))" and m: "maps e (ptes t) x p"
  obtains (same) "maps e (ptes s0) x p" "pte_dirty (ptes t x) = pte_dirty (ptes s0 x)" "\<And>d. lo \<le> d \<Longrightarrow> d < hi \<Longrightarrow> x \<noteq> pte_ptr e dst d"
      "pte_write (ptes t x) \<Longrightarrow> pte_write (ptes s0 x) \<and> (\<forall>d. lo \<le> d \<and> d < hi \<longrightarrow> x \<noteq> pte_ptr e src d)"
  | (child) d where "lo \<le> d" "d < hi" "x = pte_ptr e dst d" "maps e (ptes s0) (pte_ptr e src d) p"
      "pte_dirty (ptes t x) = pte_dirty (ptes s0 (pte_ptr e src d))" "\<not> pte_write (ptes t x)"
proof -
  note F = forkedD [OF fk]
  have pr: "pte_present (ptes t x)" and fr: "pte_to_pcache_meta (geom e) (ptes t x) = Some p" using m by (simp_all add: maps_def)
  consider (d) d where "lo \<le> d" "d < hi" "x = pte_ptr e dst d" | (s) d where "lo \<le> d" "d < hi" "x = pte_ptr e src d" "\<forall>d. lo \<le> d \<and> d < hi \<longrightarrow> x \<noteq> pte_ptr e dst d"
    | (out) "\<forall>d. lo \<le> d \<and> d < hi \<longrightarrow> x \<noteq> pte_ptr e src d \<and> x \<noteq> pte_ptr e dst d" by blast
  then show ?thesis
  proof cases
    case d
    let ?v = "ptes s0 (pte_ptr e src d)"
    have v: "pte_present ?v" "ptes t x = child_pte flags ?v"
      using F(7) [OF d(1,2)] pr ab d(1,2) unfolding copied_page_def Let_def d(3) by (metis (full_types))+
    have "pte_to_pcache_meta (geom e) ?v = Some p" using fr pte_same_frame [of "child_pte flags ?v" ?v "geom e"] v(2) by simp
    then show ?thesis using child [OF d] v cow_ptes [OF cow] by (simp add: maps_def del: pte_present_bit pte_write_bit pte_dirty_bit)
  next
    case s
    let ?v = "ptes s0 x"
    have v: "pte_present ?v" "ptes t x = parent_pte flags ?v"
      using F(7) [OF s(1,2)] pr unfolding copied_page_def Let_def s(3) [symmetric] by (metis (full_types))+
    have "pte_to_pcache_meta (geom e) ?v = Some p" using fr pte_same_frame [of "parent_pte flags ?v" ?v "geom e"] v(2) by simp
    then show ?thesis using same s(4) v cow_ptes [OF cow] by (simp add: maps_def del: pte_present_bit pte_write_bit pte_dirty_bit)
  next
    case out
    then have "ptes t x = ptes s0 x" using F(8) [of x] by blast
    then show ?thesis using same m out by (simp add: maps_def)
  qed
qed

lemma forked_maps_iff:
  assumes fk: "forked e dst src proc flags lo hi s0 h hi t" and cow: "is_cow_mapping flags" and ne: "dst \<noteq> src"
    and ab: "\<forall>d. lo \<le> d \<and> d < hi \<longrightarrow> \<not> pte_present (ptes s0 (pte_ptr e dst d))"
  shows "lo \<le> d \<Longrightarrow> d < hi \<Longrightarrow> maps e (ptes t) (pte_ptr e dst d) p \<longleftrightarrow> maps e (ptes s0) (pte_ptr e src d) p"
    and "(\<And>d. lo \<le> d \<Longrightarrow> d < hi \<Longrightarrow> x \<noteq> pte_ptr e dst d) \<Longrightarrow> maps e (ptes t) x p \<longleftrightarrow> maps e (ptes s0) x p"
proof -
  note F = forkedD [OF fk] and fm = forked_maps [OF fk cow ab]
  have env: "env_ok e" by (rule pinvD(1) [OF F(1)])
  have fwd: "maps e (ptes t) (pte_ptr e dst d) p \<and> maps e (ptes t) (pte_ptr e src d) p"
    if "lo \<le> d" "d < hi" "maps e (ptes s0) (pte_ptr e src d) p" for d
  proof -
    let ?v = "ptes s0 (pte_ptr e src d)"
    have "ptes t (pte_ptr e src d) = parent_pte flags ?v" "ptes t (pte_ptr e dst d) = child_pte flags ?v"
      using F(7) [OF that(1,2)] that(3) by (simp_all add: copied_page_def maps_def Let_def del: pte_present_bit)
    then show ?thesis using that(3) pte_same_frame [of "parent_pte flags ?v" ?v "geom e"] pte_same_frame [of "child_pte flags ?v" ?v "geom e"]
      by (simp add: maps_def del: pte_present_bit)
  qed
  show "maps e (ptes t) (pte_ptr e dst d) p \<longleftrightarrow> maps e (ptes s0) (pte_ptr e src d) p" if d: "lo \<le> d" "d < hi"
  proof
    assume m: "maps e (ptes t) (pte_ptr e dst d) p"
    show "maps e (ptes s0) (pte_ptr e src d) p"
    proof (cases rule: forked_maps [OF fk cow ab m, case_names same child])
      case same
      then show ?thesis using d by blast
    next
      case (child d')
      have "d AND PAGE_MASK = d' AND PAGE_MASK" using page_walkD(3) [OF env child(3)] by simp
      then have "pte_ptr e src d = pte_ptr e src d'" using page_walkD(1) [OF env, of src] by metis
      then show ?thesis using child(4) by simp
    qed
  qed (use fwd [OF d] in blast)
  show "maps e (ptes t) x p \<longleftrightarrow> maps e (ptes s0) x p" if x: "\<And>d. lo \<le> d \<Longrightarrow> d < hi \<Longrightarrow> x \<noteq> pte_ptr e dst d"
  proof
    assume "maps e (ptes t) x p"
    then show "maps e (ptes s0) x p" by (rule fm) (use x in blast)+
  next
    assume m: "maps e (ptes s0) x p"
    show "maps e (ptes t) x p"
    proof (cases "\<exists>d. lo \<le> d \<and> d < hi \<and> x = pte_ptr e src d")
      case True
      then show ?thesis using fwd m by blast
    next
      case False
      then have "ptes t x = ptes s0 x" using x by (intro F(8)) blast
      then show ?thesis using m by (simp add: maps_def)
    qed
  qed
qed

text \<open>Equal mappings of equal lines and equal pages look alike.\<close>

lemma view_eq:
  assumes "\<And>p. maps e f (pte_ptr e mm a) p = maps e g (pte_ptr e mm' a') p" "M (tg mm) (a AND PAGE_MASK) = M (tg mm') (a' AND PAGE_MASK)"
  shows "view e tg M f l mm a = view e tg M g l mm' a'"
proof (cases "\<exists>p. maps e g (pte_ptr e mm' a') p")
  case True
  then obtain p where "maps e g (pte_ptr e mm' a') p" "maps e f (pte_ptr e mm a) p" using assms(1) by blast
  then show ?thesis by (simp add: view_maps)
next
  case False
  then have "\<not> (\<exists>p. maps e f (pte_ptr e mm a) p)" using assms(1) by blast
  then show ?thesis using view_memory [OF False, of tg M l] view_memory [of e f mm a tg M l] assms(2) by simp
qed

lemma fork_coherent:
  assumes fk: "forked e dst src proc flags lo hi s0 h hi t" and cow: "is_cow_mapping flags" and ne: "dst \<noteq> src"
    and ab: "\<forall>d. lo \<le> d \<and> d < hi \<longrightarrow> \<not> pte_present (ptes s0 (pte_ptr e dst d))"
    and dup: "\<And>d. lo \<le> d \<Longrightarrow> d < hi \<Longrightarrow> memory M0 (net s0) (tg dst) (d AND PAGE_MASK) = memory M0 (net s0) (tg src) (d AND PAGE_MASK)"
    and proc: "tgid (task e proc) = tg dst" and cc: "cache_coherent e tg M0 s0"
  shows "cache_coherent e tg M0 t" and "lo \<le> d \<Longrightarrow> d < hi \<Longrightarrow> pview e tg M0 t dst d = pview e tg M0 s0 src d"
    and "(\<And>d. lo \<le> d \<Longrightarrow> d < hi \<Longrightarrow> pte_ptr e mm a \<noteq> pte_ptr e dst d) \<Longrightarrow> pview e tg M0 t mm a = pview e tg M0 s0 mm a"
proof -
  note F = forkedD [OF fk] and fm = forked_maps [OF fk cow ab]
  let ?M = "memory M0 (net s0)"
  have coh: "coherent e tg ?M (ptes s0) (line s0)" and own: "owners_ok e tg s0" using cc by (simp_all add: cache_coherent_def)
  have env: "env_ok e" by (rule pinvD(1) [OF F(1)])
  have key: "mm = dst \<and> ?M (tg dst) (d AND PAGE_MASK) = ?M (tg mm) (a AND PAGE_MASK)" if "pte_ptr e mm a = pte_ptr e dst d" for mm a d
    using page_walkD(3) [OF env that] by simp
  have zero: "?M (tg mm) (a AND PAGE_MASK) = replicate (unat (PCACHE_LINE_SIZE (pconfig (geom e)))) 0"
    if "\<not> pte_present (ptes s0 (pte_ptr e mm a))" "pte_zerofill (ptes s0 (pte_ptr e mm a))" for mm a using coherentD(2) [OF coh that] .
  have "coherent e tg ?M (ptes t) (line s0)"
  proof (rule coherentI)
    fix mm a p assume m: "maps e (ptes t) (pte_ptr e mm a) p" and nd: "\<not> pte_dirty (ptes t (pte_ptr e mm a))"
    show "line s0 p = ?M (tg mm) (a AND PAGE_MASK)"
    proof (cases rule: forked_maps [OF fk cow ab m, case_names same child])
      case same
      then show ?thesis using coherentD(1) [OF coh] nd by metis
    next
      case (child d)
      have "line s0 p = ?M (tg src) (d AND PAGE_MASK)" using coherentD(1) [OF coh child(4)] child(5) nd by metis
      then show ?thesis using dup [OF child(1,2)] key [OF child(3)] by simp
    qed
  next
    fix mm a assume np: "\<not> pte_present (ptes t (pte_ptr e mm a))" and z: "pte_zerofill (ptes t (pte_ptr e mm a))"
    consider (d) d where "lo \<le> d" "d < hi" "pte_ptr e mm a = pte_ptr e dst d" | (s) d where "lo \<le> d" "d < hi" "pte_ptr e mm a = pte_ptr e src d"
      | (out) "ptes t (pte_ptr e mm a) = ptes s0 (pte_ptr e mm a)" using F(8) [of "pte_ptr e mm a"] by blast
    then show "?M (tg mm) (a AND PAGE_MASK) = replicate (unat (PCACHE_LINE_SIZE (pconfig (geom e)))) 0"
    proof cases
      case d
      have "\<not> pte_present (ptes s0 (pte_ptr e src d))"
        using F(7) [OF d(1,2)] np copied_pte_frame(4) unfolding copied_page_def Let_def d(3) by metis
      then have "ptes t (pte_ptr e dst d) = ptes s0 (pte_ptr e dst d) \<or> ptes t (pte_ptr e dst d) = ptes s0 (pte_ptr e src d)"
        "\<not> pte_present (ptes s0 (pte_ptr e src d))" using F(7) [OF d(1,2)] unfolding copied_page_def Let_def by metis+
      then have "?M (tg dst) (d AND PAGE_MASK) = replicate (unat (PCACHE_LINE_SIZE (pconfig (geom e)))) 0"
        using zero [of dst d] zero [of src d] ab d(1,2) z dup [OF d(1,2)] unfolding d(3) by metis
      then show ?thesis using key [OF d(3)] by simp
    next
      case s
      then have "ptes t (pte_ptr e mm a) = ptes s0 (pte_ptr e mm a)"
        using F(7) [OF s(1,2)] np copied_pte_frame(2) unfolding copied_page_def Let_def s(3) by metis
      then show ?thesis using zero np z by metis
    next
      case out
      then show ?thesis using zero np z by metis
    qed
  next
    fix x y p assume m: "maps e (ptes t) x p" "pte_write (ptes t x)" "maps e (ptes t) y p"
    have x: "maps e (ptes s0) x p" "pte_write (ptes s0 x)" "\<forall>d. lo \<le> d \<and> d < hi \<longrightarrow> x \<noteq> pte_ptr e src d"
      using fm [OF m(1)] m(2) by metis+
    show "y = x"
    proof (cases rule: forked_maps [OF fk cow ab m(3), case_names same child])
      case same
      then show ?thesis using coherentD(3) [OF coh x(1,2)] by blast
    next
      case (child d)
      then show ?thesis using coherentD(3) [OF coh x(1,2) child(4)] x(3) by blast
    qed
  qed
  moreover have "owners_ok e tg t"
    unfolding owners_ok_def
  proof (intro allI ballI impI)
    fix p r assume p: "p < nl e" "r \<in> set (rmap (meta t p))"
    show "tgid (task e (owner_process r)) = tg (owner_mm r)"
      using F(11) [OF p(2)] F(3) p proc own unfolding child_rmaps_def owners_ok_def by metis
  qed
  ultimately show "cache_coherent e tg M0 t" using F(9,10) by (simp add: cache_coherent_def)
  show "pview e tg M0 t dst d = pview e tg M0 s0 src d" if d: "lo \<le> d" "d < hi"
    unfolding pview_def F(9,10) by (rule view_eq) (use forked_maps_iff(1) [OF fk cow ne ab d] dup [OF d] in simp_all)
  show "pview e tg M0 t mm a = pview e tg M0 s0 mm a" if "\<And>d. lo \<le> d \<Longrightarrow> d < hi \<Longrightarrow> pte_ptr e mm a \<noteq> pte_ptr e dst d"
    unfolding pview_def F(9,10) by (rule view_eq) (use forked_maps_iff(2) [OF fk cow ne ab that] in simp_all)
qed

end
