(* ===== verification/Pcache_Demo.thy ===== *)
theory Pcache_Demo
  imports Pcache_Pgtable
begin

section \<open>A small cache\<close>

text \<open>
  A concrete environment with one set of two lines, on which the properties of the processor
  cache are exercised: the empty cache after boot, and a full cache in which a parent and its
  child share one line after a fork while the other line holds a dirty page of the parent.
\<close>

definition tiny_geom :: pcache_geom where
  "tiny_geom = \<lparr>pconfig = \<lparr>line_size_shift = 12, associativity_shift = 1, meta_size = 128\<rparr>, llc_cache_size = 12288,
     nr_cachelines = 2, nr_cachesets = 1, nr_pages_cacheline = 2, nr_pages_metadata = 1,
     phys_start_cacheline = 0x10000, phys_start_metadata = 0x12000,
     nr_bits_cacheline = 12, nr_bits_set = 0, nr_bits_tag = 52,
     pcache_cacheline_mask = 4095, pcache_set_mask = 0, pcache_tag_mask = NOT 0xFFF,
     pcache_way_cache_stride = 4096,
     virt_start_cacheline = 0xffff880000010000, pcache_meta_map = 0xffff880000012000\<rparr>"

text \<open>
  Every address space has one page table with one lock. Task \<open>n\<close> is a single threaded
  process with address space \<open>n\<close>; memory answers a request with the length of a page and a
  page filled with the number of requests it has received.
\<close>

definition tiny_env :: penv where
  "tiny_env = \<lparr>geom = tiny_geom, supported_pte_mask = NOT 0,
     pte_ptr = (\<lambda>mm a. mm * 2 ^ 52 + unat a div 4096), pte_lockptr = (\<lambda>mm a. mm),
     task = (\<lambda>n. \<lparr>pid = n, tgid = n, exit_signal = 17, signal = n, group_leader = n, task_mm = n, home_node = 1, replica_node = 2\<rparr>),
     current = 1, kzalloc_ok = (\<lambda>_. True), ptl_busy = (\<lambda>_. False), lru_lock_busy = (\<lambda>_. False),
     pte_alloc_ok = (\<lambda>_ _. True), reply = (\<lambda>h. (4096, replicate 4096 (of_nat (length h)))), others = (\<lambda>s. s),
     alloc_rounds = 8, spin_rounds = 8\<rparr>"

lemma tiny_env_simps [simp]:
  "geom tiny_env = tiny_geom" "supported_pte_mask tiny_env = NOT 0" "current tiny_env = 1"
  "others tiny_env s = s" "alloc_rounds tiny_env = 8" "spin_rounds tiny_env = 8" "kzalloc_ok tiny_env n"
  "pte_alloc_ok tiny_env mm a" "pte_lockptr tiny_env mm a = mm" "pte_ptr tiny_env mm a = mm * 2 ^ 52 + unat a div 4096"
  "group_leader (task tiny_env n) = n" "task_mm (task tiny_env n) = n" "thread_group_leader tiny_env n"
  by (simp_all add: tiny_env_def thread_group_leader_def)

lemma tiny_geom_wf: "geom_wf tiny_geom" "geom_mapped tiny_geom"
  by (simp_all add: geom_wf_def geom_mapped_def tiny_geom_def)

lemma tiny_sizes [simp]: "nl tiny_env = 2" "nsets tiny_env = 1" "set_of tiny_env p = 0" "line_size_shift (pconfig tiny_geom) = 12"
  "phys_start_metadata tiny_geom = 0x12000"
  by (simp_all add: nl_def nr_lines_def nsets_def set_of_def tiny_geom_def)

lemma unat_page_number: "unat (a :: u64) div 4096 < 2 ^ 52"
  using unat_less_2p64 [of a] by (simp add: less_mult_imp_div_less)

lemma tiny_page_walk: "page_walk_ok tiny_env"
proof -
  have m: "unat (a AND PAGE_MASK) div 4096 = unat a div 4096" for a :: u64 by (simp add: unat_page_align)
  have inj: "mm = mm' \<and> a AND PAGE_MASK = a' AND PAGE_MASK"
    if "mm * 2 ^ 52 + unat a div 4096 = mm' * 2 ^ 52 + unat a' div 4096" for mm mm' and a a' :: u64
  proof -
    have "mm = mm'" using arg_cong [OF that, of "\<lambda>x. x div 2 ^ 52"] unat_page_number [of a] unat_page_number [of a'] by simp
    moreover from this have "unat a div 4096 = unat a' div 4096" using that by simp
    then have "a AND PAGE_MASK = a' AND PAGE_MASK" by (intro word_unat_eq) (simp add: unat_page_align)
    ultimately show ?thesis by simp
  qed
  show ?thesis unfolding page_walk_ok_def tiny_env_simps m using inj by blast
qed

lemma tiny_env_ok: "env_ok tiny_env"
  using tiny_geom_wf tiny_page_walk by (simp add: env_ok_def)

subsection \<open>The states\<close>

definition tiny_blank :: pstate where
  "tiny_blank = \<lparr>meta = (\<lambda>_. init_pcache_meta), pset = (\<lambda>_. init_pcache_set), rmap_used = (\<lambda>_. False), pee_used = (\<lambda>_. False),
     piggybacker = None, ptes = (\<lambda>_. 0), line = (\<lambda>_. replicate 4096 0), net = [], tlb_flushes = [], ptl_held = {},
     nr_kzalloc = 0, bad_pcache_printed = False\<rparr>"

definition tiny_rmap :: "nat option \<Rightarrow> nat \<Rightarrow> u64 \<Rightarrow> rmap_caller \<Rightarrow> pcache_rmap" where
  "tiny_rmap sl mm a c = \<lparr>rm_slot = sl, rm_reserved = False, page_table = mm * 2 ^ 52 + unat a div 4096, owner_mm = mm,
     owner_process = mm, rm_caller = c, rm_address = a\<rparr>"

definition tiny_shared :: pstate where
  "tiny_shared = tiny_blank\<lparr>
     meta := (\<lambda>p. if p = 0 then init_pcache_meta\<lparr>bits := {PC_valid}, mapcount := 2, refcount := 2,
                     rmap := [tiny_rmap None 2 0x1000 RMAP_FORK, tiny_rmap (Some 0) 1 0x1000 RMAP_FILL_PAGE_REMOTE]\<rparr>
                  else init_pcache_meta\<lparr>bits := {PC_valid}, mapcount := 1, refcount := 1,
                     rmap := [tiny_rmap (Some 1) 1 0x2000 RMAP_FILL_PAGE_REMOTE]\<rparr>),
     pset := (\<lambda>_. init_pcache_set\<lparr>lru_list := [1, 0], nr_lru := 2\<rparr>), rmap_used := (\<lambda>_. True),
     ptes := (\<lambda>_. 0)(2 ^ 52 + 1 := 0x10025, 2 ^ 53 + 1 := 0x10005, 2 ^ 52 + 2 := 0x11067), nr_kzalloc := 1\<rparr>"

lemma tiny_ptes: "pte_to_pcache_meta tiny_geom 0x10025 = Some 0" "pte_to_pcache_meta tiny_geom 0x10005 = Some 0"
  "pte_to_pcache_meta tiny_geom 0x11067 = Some 1" "pte_present 0x10025" "pte_present 0x10005" "pte_present 0x11067"
  by (simp_all add: pte_to_pcache_meta_def pa_to_pcache_meta_def pa_is_pcache_def tiny_geom_def PTE_PFN_MASK_def PCACHE_LINE_MASK_def PCACHE_LINE_SIZE_def PAGE_MASK_def PAGE_SIZE_def)

lemma tiny_shared_maps:
  "maps_line tiny_env tiny_shared x p \<longleftrightarrow> x = 2 ^ 52 + 1 \<and> p = 0 \<or> x = 2 ^ 53 + 1 \<and> p = 0 \<or> x = 2 ^ 52 + 2 \<and> p = 1"
  using tiny_ptes by (auto simp: maps_line_def tiny_shared_def tiny_blank_def)

lemma tiny_shared_inv: "pinv tiny_env {} {} None tiny_shared"
proof -
  have r: "rmap_ok tiny_env tiny_shared 0 (tiny_rmap None 2 0x1000 c)" "rmap_ok tiny_env tiny_shared 0 (tiny_rmap (Some 0) 1 0x1000 c)"
     "rmap_ok tiny_env tiny_shared 1 (tiny_rmap (Some 1) 1 0x2000 c)" for c
    by (simp_all add: rmap_ok_def tiny_rmap_def tiny_shared_maps PAGE_MASK_def PAGE_SIZE_def)
  have "meta_ok tiny_env tiny_shared 0" "meta_ok tiny_env tiny_shared 1"
    using r by (simp_all add: meta_ok_def tiny_shared_def tiny_rmap_def tiny_blank_def Let_def)
  then have "line_ok tiny_env {} {} None tiny_shared p" if "p < 2" for p
    using that by (auto simp: line_ok_def less_2_cases_iff in_lru_def in_free_def tiny_shared_def tiny_blank_def init_pcache_set_def)
  moreover have "sets_ok tiny_env tiny_shared" "evicts_ok tiny_env None tiny_shared"
    by (auto simp: sets_ok_def pset_wf_def tiny_shared_def tiny_blank_def init_pcache_set_def evicts_ok_def evict_list_of_def)
  moreover have "ptes_ok tiny_env tiny_shared"
    by (auto simp: ptes_ok_def tiny_shared_maps) (simp_all add: tiny_shared_def tiny_rmap_def)
  ultimately show ?thesis using tiny_env_ok by (simp add: pinv_def lines_ok_def tiny_shared_def tiny_blank_def)
qed

end
