(* ===== verification/Pcache_Props.thy ===== *)
theory Pcache_Props
  imports Pcache_Coherence Pcache_Demo
begin

section \<open>Properties of the processor cache\<close>

text \<open>
  The operations of the cache as steps of one machine, its reachable states, the refinement of
  a flat memory, and the main properties with witnesses on the small cache of \<open>Pcache_Demo\<close>.
\<close>

subsection \<open>The machine\<close>

datatype pc_event =
    Fault nat u64 u64 int
  | Store nat u64 nat "8 word"
  | Sweep
  | Unmap nat u64 u64
  | Release nat u64 u64
  | Fork nat nat u64 u64

text \<open>
  A page fault of task \<open>c\<close>, a store by a processor, a round of the sweep thread,
  the page table part of \<open>munmap\<close> and of \<open>exit\<close>, and of \<open>fork\<close> into an
  address space that has nothing mapped in the range. \<open>w\<close> are the upper levels of the
  page tables at that time.
\<close>

inductive pc_step :: "penv \<Rightarrow> pstate \<Rightarrow> pc_event \<Rightarrow> pstate \<Rightarrow> bool" for e where
  fault: "pcache_handle_fault (e\<lparr>current := c\<rparr>) (task_mm (task e c)) a flags s = Some (ret, t) \<Longrightarrow> pc_step e s (Fault c a flags ret) t"
| store: "user_store e mm a off b s = Some t \<Longrightarrow> pc_step e s (Store mm a off b) t"
| sweep: "kevict_sweepd_lru_round e s = Some t \<Longrightarrow> pc_step e s Sweep t"
| unmap: "page_aligned a \<Longrightarrow> page_aligned b \<Longrightarrow> levels_ok w e mm s \<Longrightarrow> unmap_page_range w e mm a b s = Some t \<Longrightarrow>
    pc_step e s (Unmap mm a b) t"
| release: "page_aligned a \<Longrightarrow> page_aligned b \<Longrightarrow> a < b \<Longrightarrow> levels_ok w e (task_mm (task e c)) s \<Longrightarrow> release_pgtable w e c a b s = Some t \<Longrightarrow>
    pc_step e s (Release (task_mm (task e c)) a b) t"
| fork: "page_aligned a \<Longrightarrow> page_aligned b \<Longrightarrow> a < b \<Longrightarrow> levels_ok w e src s \<Longrightarrow> dst \<noteq> src \<Longrightarrow> thread_group_leader e proc \<Longrightarrow>
    child_rmaps e dst src proc s \<Longrightarrow> \<forall>d. a \<le> d \<and> d < b \<longrightarrow> \<not> pte_present (ptes s (pte_ptr e dst d)) \<Longrightarrow>
    pcache_copy_page_range w e dst src a b flags proc s = Some (ret, t) \<Longrightarrow> pc_step e s (Fork dst src a b) t"

inductive_cases pc_stepE: "pc_step e s ev t"

inductive pc_run :: "penv \<Rightarrow> pstate \<Rightarrow> pc_event list \<Rightarrow> pstate \<Rightarrow> bool" for e where
  empty: "pc_run e s [] s"
| snoc: "pc_run e s evs t \<Longrightarrow> pc_step e t ev u \<Longrightarrow> pc_run e s (evs @ [ev]) u"

text \<open>The kernel before \<open>pcache_post_init\<close>: pools unused, no page mapped.\<close>

definition blank_pcache :: "pstate \<Rightarrow> bool" where
  "blank_pcache s \<longleftrightarrow> (\<forall>p. \<not> rmap_used s p \<and> \<not> pee_used s p) \<and> piggybacker s = None \<and> \<not> bad_pcache_printed s \<and>
     ptl_held s = {} \<and> ptes s = (\<lambda>_. 0)"

text \<open>
  What the environment has to provide: other CPUs keep the invariant while this one waits, the
  allocator is called with a positive time limit, and group leaders are group leaders. Nothing is
  assumed of \<open>kzalloc\<close>: a fault handles its failures. Fork does not, so what is said of runs with forks
  has \<open>fork_memory\<close> as a hypothesis of its own.
\<close>

definition env_fits :: "penv \<Rightarrow> bool" where
  "env_fits e \<longleftrightarrow> env_ok e \<and> others_ok e \<and> 0 < alloc_rounds e \<and>
     (\<forall>c. thread_group_leader e (group_leader (task e c)))"

fun is_fork :: "pc_event \<Rightarrow> bool" where
  "is_fork (Fork _ _ _ _) \<longleftrightarrow> True"
| "is_fork _ \<longleftrightarrow> False"

text \<open>If there is a fork among the events, memory for reverse mappings never runs out.\<close>

definition fork_memory :: "penv \<Rightarrow> pc_event list \<Rightarrow> bool" where
  "fork_memory e evs \<longleftrightarrow> (\<exists>ev \<in> set evs. is_fork ev) \<longrightarrow> (\<forall>n. kzalloc_ok e n)"

lemma fork_memory_simps [simp]:
  "fork_memory e []" "fork_memory e (evs @ evs') \<longleftrightarrow> fork_memory e evs \<and> fork_memory e evs'"
  "\<forall>ev \<in> set evs. \<not> is_fork ev \<Longrightarrow> fork_memory e evs"
  by (auto simp: fork_memory_def)

definition quiet :: "penv \<Rightarrow> pstate \<Rightarrow> bool" where
  "quiet e s \<longleftrightarrow> pinv e {} {} None s \<and> ptl_held s = {}"

lemma boot_quiet:
  assumes "env_ok e" "blank_pcache s"
  shows "\<exists>t. pcache_post_init_maps (geom e) s = Some t \<and> quiet e t"
proof -
  have "\<not> maps_line e s x p" for x p using assms(2) by (simp add: blank_pcache_def maps_line_def)
  then obtain t where "pcache_post_init_maps (geom e) s = Some t" "pinv e {} {} None t" "ptl_held t = ptl_held s"
    using boot_pinv [OF assms(1), of s] assms(2) unfolding blank_pcache_def by metis
  then show ?thesis using assms(2) by (simp add: quiet_def blank_pcache_def)
qed

text \<open>The invariant depends on the layout and the page tables only.\<close>

lemma pinv_env_cong:
  assumes "geom e' = geom e" "pte_ptr e' = pte_ptr e" "pte_lockptr e' = pte_lockptr e" "supported_pte_mask e' = supported_pte_mask e"
  shows "pinv e' = pinv e"
proof -
  have sz: "nl e' = nl e" "nsets e' = nsets e" "set_of e' = set_of e" "maps_line e' = maps_line e" "env_ok e' = env_ok e"
    using assms by (simp_all add: nl_def nsets_def set_of_def maps_line_def env_ok_def page_walk_ok_def fun_eq_iff)
  have rm: "rmap_ok e' = rmap_ok e" "in_free e' = in_free e" "in_lru e' = in_lru e" "evict_list_of e' = evict_list_of e"
    using assms(2) by (simp_all add: fun_eq_iff rmap_ok_def in_free_def in_lru_def sz evict_list_of_def cong: option.case_cong)
  have mo: "meta_ok e' = meta_ok e" by (intro ext) (simp only: meta_ok_def rm)
  show ?thesis by (intro ext) (simp only: pinv_def sets_ok_def pset_wf_def lines_ok_def line_ok_def evicts_ok_def ptes_ok_def sz rm mo)
qed

lemma current_irrelevant [simp]:
  "pinv (e\<lparr>current := c\<rparr>) = pinv e" "others_ok (e\<lparr>current := c\<rparr>) = others_ok e" "thread_group_leader (e\<lparr>current := c\<rparr>) p = thread_group_leader e p"
  using pinv_env_cong [of "e\<lparr>current := c\<rparr>" e] by (simp_all add: others_ok_def thread_group_leader_def)

lemma forked_start:
  assumes "pinv e {} {} None s" "ptl_held s = h" "child_rmaps e dst src proc s" "a < b"
    "\<forall>d. a \<le> d \<and> d < b \<longrightarrow> \<not> pte_present (ptes s (pte_ptr e dst d))"
  shows "forked e dst src proc flags a b s h a s"
proof -
  have "\<not> (a \<le> d \<and> d < a)" for d by auto
  then show ?thesis using assms unfolding forked_def by (metis less_imp_le order_refl)
qed

lemma user_store_keeps:
  assumes "user_store e mm a off b s = Some t"
  shows "pinv e L H B s \<Longrightarrow> pinv e L H B t" "ptl_held t = ptl_held s"
proof -
  let ?x = "pte_ptr e mm a"
  obtain p where "t = s\<lparr>line := (line s)(p := (line s p)[off := b]), ptes := (ptes s)(?x := pte_mkdirty (pte_mkyoung (ptes s ?x)))\<rparr>"
    using assms by (auto simp: user_store_def Let_def split: if_splits)
  then have t: "t = (s\<lparr>ptes := (ptes s)(?x := pte_mkdirty (pte_mkyoung (ptes s ?x)))\<rparr>)\<lparr>line := (line s)(p := (line s p)[off := b])\<rparr>" by simp
  show "ptl_held t = ptl_held s" by (simp add: t)
  assume inv: "pinv e L H B s"
  have "pinv e L H B (s\<lparr>ptes := (ptes s)(?x := pte_mkdirty (pte_mkyoung (ptes s ?x)))\<rparr>)" by (rule pinv_pte_flags [OF inv]) simp_all
  then show "pinv e L H B t" unfolding t by (simp only: pinv_frame)
qed

lemma step_quiet:
  assumes env: "env_fits e" and mem: "fork_memory e [ev]" and q: "quiet e s" and st: "pc_step e s ev t"
  shows "quiet e t"
  using st
proof cases
  case (fault c a flags ret)
  have "fault_context (e\<lparr>current := c\<rparr>) (task_mm (task e c))" using env by (simp add: env_fits_def fault_context_def)
  then show ?thesis using pcache_handle_fault_inv [of "e\<lparr>current := c\<rparr>" s "task_mm (task e c)"] q fault by (simp add: quiet_def)
next
  case (store mm a off b)
  then show ?thesis using user_store_keeps [of e mm a off b s t] q by (simp add: quiet_def)
next
  case sweep
  have "\<forall>k \<in> set [0..<unat (nr_cachesets (geom e))]. k < nsets e" by (simp add: nsets_def)
  then show ?thesis
    using kevict_sweepd_sets_ok [of e "{}" "{}" None s "[0..<unat (nr_cachesets (geom e))]"] q sweep
    by (auto simp: quiet_def kevict_sweepd_lru_round_def sweep_effect_def)
next
  case (unmap a b w mm)
  have "a < b" using unmap(5) by (simp add: unmap_page_range_def bind_eq_Some_conv bug_on_def split: if_splits)
  moreover have "range_ready w e mm {} s" using q unmap by (simp add: range_ready_def quiet_def)
  ultimately show ?thesis using unmap_page_range_ok [of a b w e mm "{}" s] unmap by (auto simp: range_ready_def quiet_def)
next
  case (release a b w c)
  have "range_ready w e (task_mm (task e c)) {} s" using q release by (simp add: range_ready_def quiet_def)
  then show ?thesis using release_pgtable_ok [of a b "task_mm (task e c)" e c w "{}" s] release by (auto simp: range_ready_def quiet_def)
next
  case (fork a b w src dst proc flags ret)
  have "forked e dst src proc flags a b s {} a s"
    by (rule forked_start) (use fork q in \<open>simp_all add: quiet_def del: pte_present_bit\<close>)
  then have "fork_result e dst src proc flags a b s {} b (Some (ret, t))"
    using pcache_copy_page_range_ok [of e dst src proc flags a b s "{}" a s b w] fork mem by (simp add: fork_memory_def)
  then obtain c where "forked e dst src proc flags a b s {} c t" unfolding fork_result_def by (auto split: if_splits)
  then show ?thesis using forkedD(1,2) by (simp add: quiet_def)
qed

lemma run_quiet:
  assumes "env_fits e" "pc_run e s evs t" "fork_memory e evs" "quiet e s"
  shows "quiet e t"
  using assms(2-4) by induction (auto intro: step_quiet [OF assms(1)])

lemma reachable_quiet:
  assumes "env_fits e" "blank_pcache s0" "pcache_post_init_maps (geom e) s0 = Some s" "pc_run e s evs t" "fork_memory e evs"
  shows "quiet e t"
  using boot_quiet [of e s0] run_quiet [OF assms(1,4,5)] assms(1-3) by (auto simp: env_fits_def)

subsection \<open>Flat memory\<close>

text \<open>The abstract machine: every address space is an array of pages.\<close>

fun flat_step :: "pc_event \<Rightarrow> (nat \<Rightarrow> u64 \<Rightarrow> line_data) \<Rightarrow> (nat \<Rightarrow> u64 \<Rightarrow> line_data) \<Rightarrow> bool" where
  "flat_step (Fault _ _ _ _) A A' \<longleftrightarrow> A' = A"
| "flat_step Sweep A A' \<longleftrightarrow> A' = A"
| "flat_step (Store mm a off b) A A' \<longleftrightarrow>
     (\<forall>mm' a'. A' mm' a' = (if mm' = mm \<and> a' AND PAGE_MASK = a AND PAGE_MASK then (A mm a)[off := b] else A mm' a'))"
| "flat_step (Unmap mm a b) A A' \<longleftrightarrow> (\<forall>mm' c. mm' \<noteq> mm \<or> c < a \<or> b \<le> c \<longrightarrow> A' mm' c = A mm' c)"
| "flat_step (Release mm a b) A A' \<longleftrightarrow> (\<forall>mm' c. mm' \<noteq> mm \<or> c < a \<or> b \<le> c \<longrightarrow> A' mm' c = A mm' c)"
| "flat_step (Fork dst src a b) A A' \<longleftrightarrow> (\<forall>mm' c. A' mm' c = (if mm' = dst \<and> a \<le> c \<and> c < b then A src c else A mm' c))"

fun flat_run :: "pc_event list \<Rightarrow> (nat \<Rightarrow> u64 \<Rightarrow> line_data) \<Rightarrow> (nat \<Rightarrow> u64 \<Rightarrow> line_data) \<Rightarrow> bool" where
  "flat_run [] A A' \<longleftrightarrow> A' = A"
| "flat_run (ev # evs) A A'' \<longleftrightarrow> (\<exists>A'. flat_step ev A A' \<and> flat_run evs A' A'')"

lemma flat_run_snoc: "flat_run evs A A' \<Longrightarrow> flat_step ev A' A'' \<Longrightarrow> flat_run (evs @ [ev]) A A''"
  by (induction evs arbitrary: A) auto

text \<open>Tasks of one address space are one thread group.\<close>

definition thread_groups :: "penv \<Rightarrow> (nat \<Rightarrow> nat) \<Rightarrow> bool" where
  "thread_groups e tg \<longleftrightarrow> inj tg \<and> (\<forall>c. tgid (task e c) = tg (task_mm (task e c)) \<and>
     task_mm (task e (group_leader (task e c))) = task_mm (task e c))"

lemma current_view [simp]:
  "cache_coherent (e\<lparr>current := c\<rparr>) = cache_coherent e" "pview (e\<lparr>current := c\<rparr>) = pview e" "serves_pages (e\<lparr>current := c\<rparr>) = serves_pages e"
proof -
  have "maps (e\<lparr>current := c\<rparr>) = maps e" "view (e\<lparr>current := c\<rparr>) = view e" "nl (e\<lparr>current := c\<rparr>) = nl e"
    by (simp_all add: fun_eq_iff maps_def view_def nl_def Let_def)
  then show "cache_coherent (e\<lparr>current := c\<rparr>) = cache_coherent e" "pview (e\<lparr>current := c\<rparr>) = pview e" "serves_pages (e\<lparr>current := c\<rparr>) = serves_pages e"
    by (simp_all add: fun_eq_iff cache_coherent_def coherent_def owners_ok_def pview_def serves_pages_def)
qed

text \<open>Outside an aligned range no address shares a page with the range.\<close>

lemma outside_range:
  assumes "env_ok e" "page_aligned a" "page_aligned b" "mm' \<noteq> mm \<or> c < a \<or> b \<le> c" "a \<le> d" "d < b"
  shows "pte_ptr e mm' c \<noteq> pte_ptr e mm d"
proof
  assume "pte_ptr e mm' c = pte_ptr e mm d"
  then have "mm' = mm" "c AND PAGE_MASK = d AND PAGE_MASK" using page_walkD(3) [OF assms(1)] by blast+
  then show False using assms pages_differ [OF assms(2), of c d] pages_differ [OF assms(3), of d c] by auto
qed

lemma step_flat:
  assumes env: "env_fits e" "\<forall>s. others e s = s" "serves_pages e M0" "thread_groups e tg" and q: "quiet e s" and cc: "cache_coherent e tg M0 s"
    and st: "pc_step e s ev t" and nf: "\<not> is_fork ev"
  shows "cache_coherent e tg M0 t \<and> flat_step ev (pview e tg M0 s) (pview e tg M0 t)"
proof -
  have inv: "pinv e {} {} None s" and lk: "ptl_held s = {}" and eo: "env_ok e" using q env(1) by (simp_all add: quiet_def env_fits_def)
  from st show ?thesis
  proof cases
    case (fault c a flags ret)
    let ?e = "e\<lparr>current := c\<rparr>" and ?mm = "task_mm (task e c)"
    have "fault_context ?e ?mm" using env by (simp add: env_fits_def fault_context_def)
    moreover have "process_context ?e tg M0 ?mm" using env(2-4) unfolding thread_groups_def by (auto simp: process_context_def)
    ultimately show ?thesis
      using pcache_handle_fault_coherent [of ?e s ?mm tg M0 a flags ret t] inv lk cc fault by simp
  next
    case (store mm a off b)
    then show ?thesis using user_store_coherent(2,3) [OF inv cc store(2)] by simp
  next
    case sweep
    have "\<forall>k \<in> set [0..<unat (nr_cachesets (geom e))]. k < nsets e" by (simp add: nsets_def)
    then have "sweep_effect s t" using kevict_sweepd_sets_ok [OF inv, of "[0..<unat (nr_cachesets (geom e))]"] sweep
      by (auto simp: kevict_sweepd_lru_round_def)
    then show ?thesis using sweep_coherent [OF _ cc] sweep by simp
  next
    case (unmap a b w mm)
    have ab: "a < b" using unmap(5) by (simp add: unmap_page_range_def bind_eq_Some_conv bug_on_def split: if_splits)
    have "range_ready w e mm {} s" using q unmap by (simp add: range_ready_def quiet_def)
    then have un: "unmapped e mm a b s t" using unmap_page_range_ok [OF ab unmap(2,3), of w e mm "{}" s] unmap(5) by auto
    have "pview e tg M0 t mm' c = pview e tg M0 s mm' c" if "mm' \<noteq> mm \<or> c < a \<or> b \<le> c" for mm' c
      by (rule unmapped_coherent(2) [OF un cc]) (use outside_range [OF eo unmap(2,3) that] in blast)
    then show ?thesis using unmapped_coherent(1) [OF un cc] unmap(1) by simp
  next
    case (release a b w c)
    let ?mm = "task_mm (task e c)"
    have "range_ready w e ?mm {} s" using q release by (simp add: range_ready_def quiet_def)
    then have un: "unmapped e ?mm a b s t" using release_pgtable_ok [where w = w and h = "{}" and s = s and e = e and tsk = c, OF release(4,2,3) refl] release(5,6) by auto
    have "pview e tg M0 t mm' c = pview e tg M0 s mm' c" if "mm' \<noteq> ?mm \<or> c < a \<or> b \<le> c" for mm' c
      by (rule unmapped_coherent(2) [OF un cc]) (use outside_range [OF eo release(2,3) that] in blast)
    then show ?thesis using unmapped_coherent(1) [OF un cc] release(1) by simp
  next
    case fork
    then show ?thesis using nf by simp
  qed
qed

lemma run_flat:
  assumes env: "env_fits e" "\<forall>s. others e s = s" "serves_pages e M0" "thread_groups e tg"
    and run: "pc_run e s evs t" and s: "quiet e s" "cache_coherent e tg M0 s" and nf: "\<forall>ev \<in> set evs. \<not> is_fork ev"
  shows "cache_coherent e tg M0 t \<and> flat_run evs (pview e tg M0 s) (pview e tg M0 t)"
  using run s nf
proof induction
  case (snoc s evs t ev u)
  then have "cache_coherent e tg M0 t \<and> flat_run evs (pview e tg M0 s) (pview e tg M0 t)" by simp
  moreover have "quiet e t" using run_quiet [OF env(1) snoc.hyps(1)] snoc.prems by simp
  ultimately show ?case using step_flat [OF env _ _ snoc.hyps(2)] snoc.prems(3) by (auto intro: flat_run_snoc)
qed simp

lemma mapped_lines:
  assumes inv: "pinv e {} {} None s" and p: "p < nl e"
  shows "mapcount (meta s p) = int (card {x. maps_line e s x p})" "refcount (meta s p) = mapcount (meta s p)"
    "in_free e s p \<noteq> in_lru e s p" "in_lru e s p \<longleftrightarrow> (\<exists>x. maps_line e s x p)"
proof -
  note D = pinvD [OF inv]
  have lp: "line_ok e {} {} None s p" by (rule line_okD [OF D(3) p])
  then have mo: "meta_ok e s p" by (simp add: line_ok_def)
  have im: "{x. maps_line e s x p} = page_table ` set (rmap (meta s p))"
    using D(5) mo by (auto simp: ptes_ok_def meta_ok_def Let_def rmap_ok_def)
  have "card (page_table ` set (rmap (meta s p))) = length (rmap (meta s p))"
    using mo distinct_card [of "map page_table (rmap (meta s p))"] by (simp add: meta_ok_def Let_def)
  then have c: "card {x. maps_line e s x p} = length (rmap (meta s p))" unfolding im .
  have ex: "(\<exists>x. maps_line e s x p) \<longleftrightarrow> rmap (meta s p) \<noteq> []"
  proof -
    have "{x. maps_line e s x p} = {} \<longleftrightarrow> rmap (meta s p) = []" unfolding im by simp
    then show ?thesis by auto
  qed
  show "mapcount (meta s p) = int (card {x. maps_line e s x p})" using c mo by (simp add: meta_ok_def Let_def)
  show "refcount (meta s p) = mapcount (meta s p)" using lp by (simp add: line_ok_def)
  show l: "in_free e s p \<noteq> in_lru e s p" by (rule in_lists [OF D(2,1) p])
  show "in_lru e s p \<longleftrightarrow> (\<exists>x. maps_line e s x p)" using lp l ex by (auto simp: line_ok_def)
qed

subsection \<open>The small cache\<close>

text \<open>Memory that serves its pages, at first all zero.\<close>

definition tiny_pages :: pages where
  "tiny_pages = (\<lambda>_ _. replicate 4096 0)"

definition tiny_mem :: penv where
  "tiny_mem = tiny_env\<lparr>reply := (\<lambda>h. (4096, case miss_of (last h) of None \<Rightarrow> []
     | Some m \<Rightarrow> memory tiny_pages h (ms_tgid m) (ms_missing_vaddr m AND PAGE_MASK)))\<rparr>"

lemma tiny_mem_simps [simp]:
  "geom tiny_mem = tiny_geom" "pte_ptr tiny_mem = pte_ptr tiny_env" "pte_lockptr tiny_mem = pte_lockptr tiny_env" "others tiny_mem s = s"
  "kzalloc_ok tiny_mem n" "alloc_rounds tiny_mem = 8" "task tiny_mem = task tiny_env" "current tiny_mem = 1" "thread_group_leader tiny_mem n"
  "supported_pte_mask tiny_mem = NOT 0" "pinv tiny_mem = pinv tiny_env" "nl tiny_mem = 2" "pte_alloc_ok tiny_mem mm a" "set_of tiny_mem p = 0"
proof -
  show "pinv tiny_mem = pinv tiny_env" by (rule pinv_env_cong) (simp_all add: tiny_mem_def)
  show "nl tiny_mem = 2" "set_of tiny_mem p = 0" using tiny_sizes by (simp_all add: nl_def set_of_def nsets_def tiny_mem_def)
qed (simp_all add: tiny_mem_def thread_group_leader_def tiny_env_def)

lemma tiny_fits: "env_fits tiny_env" "env_fits tiny_mem"
proof -
  have "env_ok tiny_mem = env_ok tiny_env" unfolding env_ok_def page_walk_ok_def by simp
  then show "env_fits tiny_env" "env_fits tiny_mem" using tiny_env_ok by (simp_all add: env_fits_def others_ok_def)
qed

lemma tiny_serves: "serves_pages tiny_mem tiny_pages" "thread_groups tiny_mem id"
  by (simp_all add: serves_pages_def thread_groups_def) (simp_all add: tiny_mem_def tiny_env_def)

lemma tiny_quiet: "quiet tiny_env tiny_shared" "quiet tiny_mem tiny_shared"
  using tiny_shared_inv by (simp_all add: quiet_def tiny_shared_def tiny_blank_def)

lemma tiny_maps: "maps tiny_mem (ptes tiny_shared) x p \<longleftrightarrow> x = 2 ^ 52 + 1 \<and> p = 0 \<or> x = 2 ^ 53 + 1 \<and> p = 0 \<or> x = 2 ^ 52 + 2 \<and> p = 1"
  using tiny_shared_maps [of x p] by (simp add: maps_def maps_line_def)

lemma tiny_shared_coherent: "cache_coherent tiny_mem id tiny_pages tiny_shared"
proof -
  have "coherent tiny_mem id tiny_pages (ptes tiny_shared) (line tiny_shared)"
  proof (rule coherentI)
    fix mm a p assume "maps tiny_mem (ptes tiny_shared) (pte_ptr tiny_mem mm a) p"
    show "line tiny_shared p = tiny_pages (id mm) (a AND PAGE_MASK)" by (simp add: tiny_shared_def tiny_blank_def tiny_pages_def)
  next
    fix mm a
    show "tiny_pages (id mm) (a AND PAGE_MASK) = replicate (unat (PCACHE_LINE_SIZE (pconfig (geom tiny_mem)))) 0"
      by (simp add: tiny_pages_def tiny_geom_def PCACHE_LINE_SIZE_def)
  next
    fix x y p assume m: "maps tiny_mem (ptes tiny_shared) x p" "pte_write (ptes tiny_shared x)" "maps tiny_mem (ptes tiny_shared) y p"
    then show "y = x" unfolding tiny_maps by (auto simp: tiny_shared_def tiny_blank_def)
  qed
  moreover have "net tiny_shared = []" by (simp add: tiny_shared_def tiny_blank_def)
  moreover have "owners_ok tiny_mem id tiny_shared"
    by (auto simp: owners_ok_def less_2_cases_iff tiny_shared_def tiny_rmap_def tiny_env_def)
  ultimately show ?thesis by (simp add: cache_coherent_def)
qed

end
