(* ===== verification/Pcache_Theorems.thy ===== *)
theory Pcache_Theorems
  imports Pcache_Props
begin

section \<open>Theorems on the processor cache\<close>

text \<open>
  The main properties of the cache, each with a witness on the small cache of \<open>Pcache_Demo\<close>:
  one set of two lines, two processes, a page shared after a fork and a private dirty page.
\<close>

subsection \<open>Runs of the whole machine\<close>

lemma tiny_store: "\<exists>t. user_store tiny_mem 1 0x2000 5 7 tiny_shared = Some t"
  by (simp add: user_store_def tiny_shared_def tiny_blank_def tiny_ptes)

lemma tiny_context: "fault_context tiny_mem 1"
  using tiny_fits(2) by (simp add: fault_context_def env_fits_def)

lemma tiny_current: "tiny_mem\<lparr>current := 1\<rparr> = tiny_mem"
  by (simp add: tiny_mem_def tiny_env_def)

lemma tiny_boot:
  obtains s where "pcache_post_init_maps tiny_geom tiny_blank = Some s" "quiet tiny_mem s" "ptes s = (\<lambda>_. 0)"
proof -
  have b: "blank_pcache tiny_blank" by (simp add: blank_pcache_def tiny_blank_def)
  have "\<not> maps_line tiny_mem tiny_blank x p" for x p by (simp add: maps_line_def tiny_blank_def)
  then obtain s where "pcache_post_init_maps (geom tiny_mem) tiny_blank = Some s" "pinv tiny_mem {} {} None s"
    "ptl_held s = ptl_held tiny_blank" "ptes s = ptes tiny_blank"
    using boot_pinv [of tiny_mem tiny_blank] tiny_fits(2) b unfolding blank_pcache_def env_fits_def by metis
  then show ?thesis using that by (simp add: quiet_def tiny_blank_def)
qed

text \<open>(C1) The cache is transparent. Whatever faults, evictions, write-backs, sweeps, unmappings and
  stores a run consists of, what the processes read through the cache is what they would read from
  a flat memory on which only their stores act: a fault and a sweep change no page, a store changes
  the one byte of the one page, and unmapping a range changes nothing outside it. Memory is only
  assumed to answer a miss with the page as the earlier write-backs left it.
\<close>

theorem cache_is_transparent:
  assumes "env_fits e" "\<forall>s. others e s = s" "serves_pages e M0" "thread_groups e tg"
    and "quiet e s" "cache_coherent e tg M0 s" "pc_run e s evs t" "\<forall>ev \<in> set evs. \<not> is_fork ev"
  shows "flat_run evs (pview e tg M0 s) (pview e tg M0 t) \<and> cache_coherent e tg M0 t"
  using run_flat [OF assms(1-4,7,5,6,8)] by blast

theorem cache_is_transparent_witness:
  "\<exists>t. pc_run tiny_mem tiny_shared [Store 1 0x2000 5 7] t \<and>
     flat_run [Store 1 0x2000 5 7] (pview tiny_mem id tiny_pages tiny_shared) (pview tiny_mem id tiny_pages t)"
proof -
  obtain t where t: "user_store tiny_mem 1 0x2000 5 7 tiny_shared = Some t" using tiny_store by blast
  have "pc_run tiny_mem tiny_shared ([] @ [Store 1 0x2000 5 7]) t" by (rule pc_run.snoc [OF pc_run.empty pc_step.store [OF t]])
  then have r: "pc_run tiny_mem tiny_shared [Store 1 0x2000 5 7] t" by simp
  then show ?thesis using cache_is_transparent [OF tiny_fits(2) _ tiny_serves tiny_quiet(2) tiny_shared_coherent r] by auto
qed

lemma absent_handle_fault:
  assumes q: "quiet e s" and ctx: "fault_context e mm" and ab: "\<not> pte_present (ptes s (pte_ptr e mm address))"
  shows "\<exists>ret t. pcache_handle_fault e mm address flags s = Some (ret, t) \<and> quiet e t \<and>
    ret \<in> {0, VM_FAULT_OOM, VM_FAULT_SIGBUS, VM_FAULT_SIGSEGV}"
proof (cases "pte_alloc_ok e mm address")
  case True
  have inv: "pinv e {} {} None s" "ptl_held s = {}" using q by (simp_all add: quiet_def)
  show ?thesis
    by (rule absent_fault [OF inv(1) ctx inv(2) ab, of flags]) (use True in \<open>simp add: pcache_handle_fault_def quiet_def\<close>)
qed (use q in \<open>simp add: pcache_handle_fault_def\<close>)

text \<open>What a handled fault on an absent page has to find: a line to use, and a page table.\<close>

definition can_fill :: "penv \<Rightarrow> nat \<Rightarrow> u64 \<Rightarrow> pstate \<Rightarrow> bool" where
  "can_fill e mm address s \<longleftrightarrow> (let k = user_vaddr_to_pcache_set (geom e) address in
     pte_alloc_ok e mm address \<and> \<not> (free_head (pset s k) = [] \<and> victim_of k s = None))"

lemma last_request: "miss_of (last (h @ fill_request e address flags p s)) = Some (miss_msg e address flags)"
  by (simp add: fill_request_def Let_def)

lemma absent_fault_fetches:
  assumes q: "quiet e s" and ctx: "fault_context e mm" and alone: "\<forall>s. others e s = s"
    and none: "ptes s (pte_ptr e mm address) = 0" and can: "can_fill e mm address s"
    and answer: "\<forall>h. int (unat (PCACHE_LINE_SIZE (pconfig (geom e)))) \<le> fst (reply e h)"
  shows "\<exists>t p. pcache_handle_fault e mm address flags s = Some (0, t) \<and> maps_line e t (pte_ptr e mm address) p \<and>
    set_of e p = user_vaddr_to_pcache_set (geom e) address \<and> line t p = snd (reply e (net t)) \<and>
    miss_of (last (net t)) = Some (miss_msg e address flags) \<and> \<not> pte_dirty (ptes t (pte_ptr e mm address))"
proof -
  let ?ptep = "pte_ptr e mm address" and ?k = "user_vaddr_to_pcache_set (geom e) address"
  have inv: "pinv e {} {} None s" and lk: "ptl_held s = {}" using q by (simp_all add: quiet_def)
  have c: "others_ok e" "0 < alloc_rounds e" "thread_group_leader e (group_leader (task e (current e)))"
    using ctx by (simp_all add: fault_context_def)
  have ab: "\<not> pte_present (ptes s ?ptep)" and lk': "pte_lockptr e mm address \<notin> ptl_held s" using none lk by simp_all
  have eq: "pcache_handle_fault e mm address flags s =
     common_do_fill_page e mm address (ptes s ?ptep) flags (pcache_do_fill_page_remote e) RMAP_FILL_PAGE_REMOTE ENABLE_PIGGYBACK s"
    using none can no_eviction_in_flight [OF inv] 
    by (simp add: pcache_handle_fault_def pcache_handle_pte_fault_def can_fill_def Let_def pcache_do_fill_page_def)
  show ?thesis
  proof (cases rule: remote.common_fill_cases [OF inv c(1,2) refl unlocked_victim [OF lk] lk' ab c(3), of flags RMAP_FILL_PAGE_REMOTE, case_names oom raced failed filled])
    case (oom s')
    then show ?thesis using can by (simp add: can_fill_def Let_def)
  next
    case (raced p B s1 s')
    then show ?thesis using alloc_absent [OF inv raced(4,5) ab] alone by simp
  next
    case (failed p B s1 u s')
    then show ?thesis using answer by (simp add: remote_filled_def)
  next
    case (filled p B s1 u v s')
    have "miss_of (last (net s')) = Some (miss_msg e address flags)" using filled(7,10) last_request by (simp add: remote_filled_def)
    then show ?thesis using eq filled by (auto simp: remote_filled_def)
  qed
qed

lemma tiny_victim: "victim_of 0 tiny_shared = Some 1" "free_head (pset tiny_shared 0) = []"
  by (simp_all add: victim_of_def evictable_def tiny_shared_def tiny_blank_def init_pcache_set_def)

lemma tiny_nsets [simp]: "nsets tiny_mem = 1"
  using tiny_sizes(2) by (simp add: nsets_def)

lemma tiny_set [simp]: "user_vaddr_to_pcache_set tiny_geom a = 0"
proof -
  have "user_vaddr_to_pcache_set (geom tiny_mem) a < nsets tiny_mem"
    using vaddr_set_less [of tiny_mem a] tiny_fits(2) by (simp add: env_fits_def)
  then show ?thesis by simp
qed

lemma maps_in_range: "env_ok e \<Longrightarrow> maps_line e s x p \<Longrightarrow> p < nl e"
  using frame_in_line(1) unfolding maps_line_def by blast

text \<open>The first fault after boot finds all lines free.\<close>

lemma tiny_first_fault:
  obtains s t p where "pcache_post_init_maps tiny_geom tiny_blank = Some s" "pc_run tiny_mem s [Fault 1 0x1000 0 0] t"
    "maps_line tiny_mem t (2 ^ 52 + 1) p" "p < nl tiny_mem"
proof -
  obtain s where s: "pcache_post_init_maps tiny_geom tiny_blank = Some s" "quiet tiny_mem s" "ptes s = (\<lambda>_. 0)" by (rule tiny_boot)
  have inv: "pinv tiny_mem {} {} None s" using s(2) by (simp add: quiet_def)
  have "\<not> maps_line tiny_mem s x 0" for x by (simp add: maps_line_def s(3))
  then have "in_free tiny_mem s 0" using mapped_lines(3,4) [OF inv, of 0] by simp
  then have "can_fill tiny_mem 1 0x1000 s" by (auto simp: can_fill_def in_free_def Let_def)
  moreover have "\<forall>h. int (unat (PCACHE_LINE_SIZE (pconfig (geom tiny_mem)))) \<le> fst (reply tiny_mem h)"
    by (simp add: tiny_mem_def tiny_geom_def PCACHE_LINE_SIZE_def)
  ultimately obtain t p where f: "pcache_handle_fault tiny_mem 1 0x1000 0 s = Some (0, t)" "maps_line tiny_mem t (pte_ptr tiny_mem 1 0x1000) p"
    using absent_fault_fetches [OF s(2) tiny_context, of "0x1000" 0] s(3) by auto
  have "pcache_handle_fault (tiny_mem\<lparr>current := 1\<rparr>) (task_mm (task tiny_mem 1)) 0x1000 0 s = Some (0, t)"
    unfolding tiny_current using f(1) by simp
  then have "pc_run tiny_mem s ([] @ [Fault 1 0x1000 0 0]) t" by (rule pc_run.snoc [OF pc_run.empty pc_step.fault])
  moreover have "env_ok tiny_mem" using tiny_fits(2) by (simp add: env_fits_def)
  ultimately show ?thesis using that [OF s(1), of t p] f(2) maps_in_range [of tiny_mem t _ p] by simp
qed

text \<open>(C2) In every state that booting and any sequence of faults, stores, sweeps, unmappings,
  exits and forks can reach, every line is either on the free list of its set or on its LRU list, it
  is on the LRU list exactly when a page table maps it, and its map count and its reference count
  are the number of page table entries that map it. No page table lock is left held. For faults,
  stores, sweeps, unmappings and exits nothing is assumed of memory; if the sequence has a fork, the hypothesis
  \<open>fork_memory\<close> says that \<open>kzalloc\<close> never fails, since fork drops this failure.
\<close>

theorem reachable_lines:
  assumes "env_fits e" "blank_pcache s0" "pcache_post_init_maps (geom e) s0 = Some s" "pc_run e s evs t" "fork_memory e evs" "p < nl e"
  shows "in_free e t p \<noteq> in_lru e t p \<and> (in_lru e t p \<longleftrightarrow> (\<exists>x. maps_line e t x p)) \<and>
    mapcount (meta t p) = int (card {x. maps_line e t x p}) \<and> refcount (meta t p) = mapcount (meta t p) \<and> ptl_held t = {}"
proof -
  have "quiet e t" by (rule reachable_quiet [OF assms(1-5)])
  then show ?thesis using mapped_lines [OF _ assms(6), of t] unfolding quiet_def by blast
qed

theorem reachable_lines_witness:
  "\<exists>s t p. pcache_post_init_maps tiny_geom tiny_blank = Some s \<and> pc_run tiny_mem s [Fault 1 0x1000 0 0] t \<and>
     maps_line tiny_mem t (2 ^ 52 + 1) p \<and> in_lru tiny_mem t p \<and> \<not> in_free tiny_mem t p \<and>
     mapcount (meta t p) = int (card {x. maps_line tiny_mem t x p})"
proof -
  obtain s t p where f: "pcache_post_init_maps tiny_geom tiny_blank = Some s" "pc_run tiny_mem s [Fault 1 0x1000 0 0] t"
      "maps_line tiny_mem t (2 ^ 52 + 1) p" "p < nl tiny_mem"
    by (rule tiny_first_fault)
  have "blank_pcache tiny_blank" by (simp add: blank_pcache_def tiny_blank_def)
  note r = reachable_lines [OF tiny_fits(2) this _ f(2) _ f(4)]
  have "in_free tiny_mem t p \<noteq> in_lru tiny_mem t p \<and> (in_lru tiny_mem t p \<longleftrightarrow> (\<exists>x. maps_line tiny_mem t x p)) \<and>
    mapcount (meta t p) = int (card {x. maps_line tiny_mem t x p})"
    using r f(1) by (simp add: fork_memory_def)
  then show ?thesis using f(1-3) by blast
qed

lemma rmap_unique:
  assumes inv: "pinv e L H B s" and p: "p < nl e"
  shows "maps_line e s x p \<longleftrightarrow> (\<exists>!r. r \<in> set (rmap (meta s p)) \<and> page_table r = x)"
proof -
  have mo: "meta_ok e s p" using line_okD [OF pinvD(3) [OF inv] p] by (simp add: line_ok_def)
  then have "inj_on page_table (set (rmap (meta s p)))" by (simp add: meta_ok_def Let_def distinct_map)
  moreover have "maps_line e s x p \<longleftrightarrow> (\<exists>r \<in> set (rmap (meta s p)). page_table r = x)"
    using pinvD(5) [OF inv] mo by (auto simp: ptes_ok_def meta_ok_def Let_def rmap_ok_def)
  ultimately show ?thesis by (auto simp: inj_on_def)
qed

text \<open>(C3) The reverse mappings are exact in every reachable state: a page table entry maps a line if
  and only if the line has one, and only one, reverse mapping for this entry. This is what
  unmapping a line for eviction relies on to find every user of it. As before, only a sequence with forks needs
  \<open>kzalloc\<close> to succeed: a fork whose allocation fails breaks the property.
\<close>

theorem reachable_rmaps:
  assumes "env_fits e" "blank_pcache s0" "pcache_post_init_maps (geom e) s0 = Some s" "pc_run e s evs t" "fork_memory e evs" "p < nl e"
  shows "maps_line e t x p \<longleftrightarrow> (\<exists>!r. r \<in> set (rmap (meta t p)) \<and> page_table r = x)"
proof -
  have "quiet e t" by (rule reachable_quiet [OF assms(1-5)])
  then have "pinv e {} {} None t" by (simp add: quiet_def)
  then show ?thesis by (rule rmap_unique [OF _ assms(6)])
qed

theorem reachable_rmaps_witness:
  "\<exists>s t p. pcache_post_init_maps tiny_geom tiny_blank = Some s \<and> pc_run tiny_mem s [Fault 1 0x1000 0 0] t \<and>
     maps_line tiny_mem t (2 ^ 52 + 1) p \<and> (\<exists>!r. r \<in> set (rmap (meta t p)) \<and> page_table r = 2 ^ 52 + 1)"
proof -
  obtain s t p where f: "pcache_post_init_maps tiny_geom tiny_blank = Some s" "pc_run tiny_mem s [Fault 1 0x1000 0 0] t"
      "maps_line tiny_mem t (2 ^ 52 + 1) p" "p < nl tiny_mem"
    by (rule tiny_first_fault)
  have b: "blank_pcache tiny_blank" "pcache_post_init_maps (geom tiny_mem) tiny_blank = Some s" "fork_memory tiny_mem [Fault 1 0x1000 0 0]"
    using f(1) by (simp_all add: blank_pcache_def tiny_blank_def fork_memory_def)
  note r = reachable_rmaps [OF tiny_fits(2) b(1,2) f(2) b(3) f(4)]
  show ?thesis using f(1-3) r [of "2 ^ 52 + 1"] by blast
qed

subsection \<open>Faults on absent pages\<close>

text \<open>(C4) A fault on a page that is not mapped always returns: whatever the other CPUs do, whatever
  memory answers and however full the set is, the handler ends with one of the four results, all locks
  released and the invariant kept. It cannot hit a fatal check, deadlock or wait forever.
\<close>

theorem absent_fault_returns:
  assumes "quiet e s" "fault_context e mm" "\<not> pte_present (ptes s (pte_ptr e mm address))"
  shows "\<exists>ret t. pcache_handle_fault e mm address flags s = Some (ret, t) \<and> quiet e t \<and>
    ret \<in> {0, VM_FAULT_OOM, VM_FAULT_SIGBUS, VM_FAULT_SIGSEGV}"
  by (rule absent_handle_fault [OF assms])

theorem absent_fault_returns_witness:
  "\<exists>ret t. pcache_handle_fault tiny_mem 1 0x3000 1 tiny_shared = Some (ret, t) \<and> quiet tiny_mem t"
  using absent_fault_returns [OF tiny_quiet(2) tiny_context, of "0x3000" 1] by (auto simp: tiny_shared_def tiny_blank_def)

text \<open>(C5) When the set has a free line or a line that can be evicted, and memory answers with a whole
  line, the fault succeeds: the last message sent is the miss for this address, the page is then mapped
  by a line of the set the address belongs to, the line holds what memory answered, and the entry is clean.
\<close>

theorem fault_fetches_page:
  assumes q: "quiet e s" and ctx: "fault_context e mm" and alone: "\<forall>s. others e s = s"
    and none: "ptes s (pte_ptr e mm address) = 0" and can: "can_fill e mm address s"
    and answer: "\<forall>h. int (unat (PCACHE_LINE_SIZE (pconfig (geom e)))) \<le> fst (reply e h)"
  shows "\<exists>t p. pcache_handle_fault e mm address flags s = Some (0, t) \<and> maps_line e t (pte_ptr e mm address) p \<and>
    set_of e p = user_vaddr_to_pcache_set (geom e) address \<and> line t p = snd (reply e (net t)) \<and>
    miss_of (last (net t)) = Some (miss_msg e address flags) \<and> \<not> pte_dirty (ptes t (pte_ptr e mm address))"
  by (rule absent_fault_fetches [OF assms])

theorem fault_fetches_page_witness:
  "\<exists>t p. pcache_handle_fault tiny_mem 1 0x3000 1 tiny_shared = Some (0, t) \<and> maps_line tiny_mem t (2 ^ 52 + 3) p"
proof -
  have "ptes tiny_shared (pte_ptr tiny_mem 1 0x3000) = 0" by (simp add: tiny_shared_def tiny_blank_def)
  moreover have "can_fill tiny_mem 1 0x3000 tiny_shared" using tiny_victim tiny_set by (simp add: can_fill_def)
  moreover have "\<forall>h. int (unat (PCACHE_LINE_SIZE (pconfig (geom tiny_mem)))) \<le> fst (reply tiny_mem h)"
    by (simp add: tiny_mem_def tiny_geom_def PCACHE_LINE_SIZE_def)
  ultimately show ?thesis using fault_fetches_page [OF tiny_quiet(2) tiny_context, of "0x3000" 1] by auto
qed

lemma none_not_zerofill: "pte_none v \<Longrightarrow> \<not> pte_zerofill v"
proof
  assume "pte_none v" "pte_zerofill v"
  then have "\<not> bit (v AND NOT (PAGE_DIRTY OR PAGE_ACCESSED)) 10" "bit v 10" by (simp_all add: pte_none_def)
  then show False by (simp add: bit_and_iff bit_not_iff bit_or_iff bit_flag)
qed

text \<open>(C6) A page whose entry carries the zero-fill mark is filled on the spot: no miss is
  sent, at most the write-back of the victim, the line is all zero, and it is mapped by a clean entry. This is
  the default configuration, without \<open>CONFIG_PCACHE_ZEROFILL_NOTIFY_MEMORY\<close>, in which memory is not told of
  the fill, not even later; the comments on \<open>common_do_fill_page\<close> and \<open>pcache_do_zerofill_page\<close>
  still speak of an asynchronous request.
\<close>

theorem zerofill_is_local:
  assumes q: "quiet e s" and ctx: "fault_context e mm" and alone: "\<forall>s. others e s = s"
    and zf: "\<not> pte_present (ptes s (pte_ptr e mm address))" "pte_zerofill (ptes s (pte_ptr e mm address))" and can: "can_fill e mm address s"
  shows "\<exists>t p. pcache_handle_fault e mm address flags s = Some (0, t) \<and> maps_line e t (pte_ptr e mm address) p \<and>
    line t p = replicate (unat (PCACHE_LINE_SIZE (pconfig (geom e)))) 0 \<and> \<not> pte_dirty (ptes t (pte_ptr e mm address)) \<and>
    (net t = net s \<or> (\<exists>r. net t = net s @ [evict_flush e p r s]))"
proof -
  let ?ptep = "pte_ptr e mm address" and ?k = "user_vaddr_to_pcache_set (geom e) address"
  have inv: "pinv e {} {} None s" and lk: "ptl_held s = {}" using q by (simp_all add: quiet_def)
  have c: "others_ok e" "0 < alloc_rounds e" "thread_group_leader e (group_leader (task e (current e)))"
    using ctx by (simp_all add: fault_context_def)
  have lk': "pte_lockptr e mm address \<notin> ptl_held s" using lk by simp
  have nn: "\<not> pte_none (ptes s ?ptep)" using zf(2) none_not_zerofill by blast
  have eq: "pcache_handle_fault e mm address flags s =
     common_do_fill_page e mm address (ptes s ?ptep) flags (pcache_do_zerofill e) RMAP_ZEROFILL DISABLE_PIGGYBACK s"
    using zf nn can by (simp add: pcache_handle_fault_def pcache_handle_pte_fault_def pcache_do_zerofill_page_def can_fill_def Let_def del: pte_present_bit)
  show ?thesis
  proof (cases rule: zero.common_fill_cases [OF inv c(1,2) refl unlocked_victim [OF lk] lk' zf(1) c(3), of flags RMAP_ZEROFILL, case_names oom raced failed filled])
    case (oom s')
    then show ?thesis using can by (simp add: can_fill_def Let_def)
  next
    case (raced p B s1 s')
    then show ?thesis using alloc_absent [OF inv raced(4,5) zf(1)] alone by simp
  next
    case (failed p B s1 u s')
    then show ?thesis by (simp add: zero_filled_def)
  next
    case (filled p B s1 u v s')
    have "net s1 = net s \<or> (\<exists>r. net s1 = net s @ [evict_flush e p r s])"
      using filled(4) by (auto simp: alloc_effect_def split: if_splits)
    then show ?thesis using eq filled alone by (auto simp: zero_filled_def)
  qed
qed

definition tiny_zero :: pstate where
  "tiny_zero = tiny_shared\<lparr>ptes := (ptes tiny_shared)(2 ^ 52 + 3 := 0x400)\<rparr>"

lemma tiny_zero_quiet: "quiet tiny_mem tiny_zero"
proof -
  have "same_frames (ptes tiny_shared) ((ptes tiny_shared)(2 ^ 52 + 3 := 0x400))"
    by (rule same_frames_upd) (simp_all add: tiny_shared_def tiny_blank_def pte_pfn_def PTE_PFN_MASK_def)
  then show ?thesis using pinv_same_frames [OF tiny_shared_inv] tiny_quiet(2) by (simp add: quiet_def tiny_zero_def)
qed

theorem zerofill_is_local_witness:
  "\<exists>t p. pcache_handle_fault tiny_mem 1 0x3000 1 tiny_zero = Some (0, t) \<and> maps_line tiny_mem t (2 ^ 52 + 3) p \<and>
     line t p = replicate 4096 0"
proof -
  have "can_fill tiny_mem 1 0x3000 tiny_zero"
    using tiny_set by (simp add: can_fill_def tiny_zero_def victim_of_def evictable_def tiny_shared_def tiny_blank_def init_pcache_set_def)
  moreover have "unat (PCACHE_LINE_SIZE (pconfig (geom tiny_mem))) = 4096" by (simp add: tiny_geom_def PCACHE_LINE_SIZE_def)
  moreover have "\<not> pte_present (ptes tiny_zero (pte_ptr tiny_mem 1 0x3000))" "pte_zerofill (ptes tiny_zero (pte_ptr tiny_mem 1 0x3000))"
    by (simp_all add: tiny_zero_def)
  ultimately show ?thesis using zerofill_is_local [OF tiny_zero_quiet tiny_context, of "0x3000" 1] by auto
qed

subsection \<open>Allocation and eviction\<close>

text \<open>(C7) The victim search of the LRU policy is a search for the first line, from the cold end of the
  list, that is valid, not locked, not under write-back and not referenced beyond its mapping; every line it
  passes over is left exactly as it was, and the line it returns is locked, pinned and taken off the list.
\<close>

theorem lru_victim_search:
  assumes "pinv e L H B s" "k < nsets e"
  shows "evict_find_line_lru e k s =
    Some (case find (evictable s) (rev (lru_list (pset s k))) of None \<Rightarrow> (None, s) | Some p \<Rightarrow> (Some p, picked_line p k s))"
  unfolding evict_find_line_lru_def by (rule evict_find_line_from_eq [OF lru_quiet [OF assms]])

theorem lru_victim_search_witness:
  "evict_find_line_lru tiny_mem 0 tiny_shared = Some (Some 1, picked_line 1 0 tiny_shared)"
  using lru_victim_search [of tiny_mem "{}" "{}" None tiny_shared 0] tiny_victim(1) tiny_quiet(2)
  by (simp add: quiet_def victim_of_def)

text \<open>(C8) Allocating a line for an address: the line comes from the set of the address, it is the head of
  the free list, or when there is none the least recently used line that can be evicted; it is then mapped by
  nobody and referenced once, by the caller. No line is returned only when the set has neither. What
  the processes had in the cache is kept: the allocation changes no other line, and clears at most the one
  entry that mapped the victim.
\<close>

theorem pcache_alloc_picks:
  assumes "pinv e L H None s" "0 < alloc_rounds e" and k: "k = user_vaddr_to_pcache_set (geom e) address"
    and "free_head (pset s k) \<noteq> [] \<or> ptl_held s = {}"
  shows "\<exists>r t. pcache_alloc e address pbo s = Some (r, t) \<and> line t = line s \<and> (case r of
      None \<Rightarrow> free_head (pset s k) = [] \<and> victim_of k s = None \<and> ptes t = ptes s
    | Some p \<Rightarrow> set_of e p = k \<and> (if free_head (pset s k) = [] then victim_of k s = Some p else p = hd (free_head (pset s k))) \<and>
        refcount (meta t p) = 1 \<and> (\<nexists>x. maps_line e t x p) \<and> (\<forall>q. q \<noteq> p \<longrightarrow> meta t q = meta s q) \<and>
        (\<forall>x. ptes t x = ptes s x \<or> ptes t x = 0 \<and> maps_line e s x p))"
proof -
  have "victim_unlocked e k s" using assms(4) unlocked_victim by (auto simp: victim_unlocked_def)
  then show ?thesis
  proof (cases rule: pcache_alloc_cases [OF k assms(1) _ assms(2), of pbo, case_names unlocked got none])
    case (got p B s')
    have lo: "line_ok e L (insert p H) B s' p" by (rule line_okD [OF pinvD(3) [OF got(6)] got(2)])
    have "\<nexists>x. maps_line e s' x p" using rmap_unique [OF got(6,2)] lo by (auto simp: line_ok_def)
    moreover have "ptes s' x = ptes s x \<or> ptes s' x = 0 \<and> maps_line e s x p" for x
      by (cases rule: alloc_victim [OF assms(1) got(2,8), case_names none one]) (auto simp: rmap_ok_def)
    ultimately show ?thesis using got lo by (auto simp: line_ok_def alloc_effect_def)
  next
    case (none s')
    then show ?thesis by (auto simp: same_memory_def)
  qed
qed

theorem pcache_alloc_picks_witness:
  "\<exists>t. pcache_alloc tiny_mem 0x3000 ENABLE_PIGGYBACK tiny_shared = Some (Some 1, t) \<and> refcount (meta t 1) = 1"
proof -
  have "pinv tiny_mem {} {} None tiny_shared" "ptl_held tiny_shared = {}" using tiny_quiet(2) by (simp_all add: quiet_def)
  from pcache_alloc_picks [OF this(1) _ refl, of "0x3000" ENABLE_PIGGYBACK] this(2) tiny_victim
  show ?thesis by (auto split: option.splits)
qed

text \<open>(C9) Evicting loses no data. The victim has exactly one mapping; its entry is cleared and the TLB of its
  address space flushed for the page; if the entry was dirty, the line goes to the memory node of the
  address, either in a flush sent now or, when piggybacking is allowed, with the miss of the line's next user:
  then the line stays reserved for this CPU with the owner and the address of its contents noted. A clean
  line is dropped, and the line is free again unless it is reserved.
\<close>

theorem eviction_writes_back:
  assumes inv: "pinv e L H None s" and k: "k < nsets e" and v: "victim_of k s = Some p" and ptl: "ptl_held s = {}"
  shows "\<exists>r t. rmap (meta s p) = [r] \<and> pcache_evict_line e k address pbo s = Some (PCACHE_EVICT_SUCCEED, t) \<and>
    ptes t = (ptes s)(page_table r := 0) \<and> tlb_flushes t = tlb_flushes s @ [(owner_mm r, rm_address r, rm_address r + PAGE_SIZE - 1)] \<and>
    line t = line s \<and>
    (if pte_dirty (ptes s (page_table r)) \<and> pbo = ENABLE_PIGGYBACK
     then net t = net s \<and> piggybacker t = Some p \<and> pb_tgid (pb (meta t p)) = tgid (task e (owner_process r)) \<and> pb_user_addr (pb (meta t p)) = rm_address r
     else net t = net s @ (if pte_dirty (ptes s (page_table r)) then [evict_flush e p r s] else []) \<and> in_free e t p)"
proof -
  obtain r where r: "rmap (meta s p) = [r]" "pcache_evict_line e k address pbo s = Some (PCACHE_EVICT_SUCCEED,
      if evict_dirty r s \<and> pbo = ENABLE_PIGGYBACK then evicted_piggy e p r s else evicted_line e p r s)"
    by (rule pcache_evict_line_eq [OF inv k, of p address pbo]) (use v ptl in \<open>auto simp: victim_of_def\<close>)
  have "in_free e (evicted_line e p r s) p" by (simp add: in_free_def evicted_line_def Let_def)
  then show ?thesis using r
    by (auto simp: evicted_piggy_def evicted_line_def evict_dirty_def Let_def evict_tlb_def evict_pb_def)
qed

theorem eviction_writes_back_witness:
  "\<exists>t. pcache_evict_line tiny_mem 0 0x3000 DISABLE_PIGGYBACK tiny_shared = Some (PCACHE_EVICT_SUCCEED, t) \<and>
     ptes t (2 ^ 52 + 2) = 0 \<and> length (net t) = 1"
proof -
  have inv: "pinv tiny_mem {} {} None tiny_shared" "ptl_held tiny_shared = {}" using tiny_quiet(2) by (simp_all add: quiet_def)
  have r: "rmap (meta tiny_shared 1) = [tiny_rmap (Some 1) 1 0x2000 RMAP_FILL_PAGE_REMOTE]" "net tiny_shared = []"
    "pte_dirty (ptes tiny_shared (2 ^ 52 + 2))" by (simp_all add: tiny_shared_def tiny_blank_def)
  then show ?thesis using eviction_writes_back [OF inv(1) _ tiny_victim(1) inv(2), of "0x3000" DISABLE_PIGGYBACK]
    by (auto simp: tiny_rmap_def)
qed

text \<open>(C10) A fault waits for an eviction of its page that is still in flight, and only for that. Start from
  any state whose counter agrees with the list, and add and remove any sequence of entries, removing only entries
  that are listed: the counter is then the number of entries that were there or added and not removed, and the
  lookup, which reads the counter first and walks the list only if it is not zero, finds an entry exactly when one
  of these is of the same page and thread group.
\<close>

theorem eviction_lookup_exact:
  assumes k: "k = user_vaddr_to_pcache_set (geom e) a" and n: "nr_eviction_entries (pset s k) = int (length (eviction_list (pset s k)))"
    and ops: "legal ops (mset (eviction_list (pset s k)))"
  shows "nr_eviction_entries (pset (eviction_ops k ops s) k) = int (size (outcome ops (mset (eviction_list (pset s k))))) \<and>
    (pset_find_eviction e a tsk (eviction_ops k ops s) \<longleftrightarrow>
      (\<exists>x. x \<in># outcome ops (mset (eviction_list (pset s k))) \<and> pe_address x = a AND PAGE_MASK \<and> same_thread_group e tsk (pe_owner x)))"
proof -
  let ?t = "eviction_ops k ops s"
  have m: "mset (eviction_list (pset ?t k)) = outcome ops (mset (eviction_list (pset s k)))"
    unfolding eviction_ops_run by (rule evictions.mset_run)
  have ag: "evictions.agree k ?t"
    unfolding eviction_ops_run by (rule evictions.agree_run [OF ops]) (simp add: evictions.agree_def n)
  then show ?thesis
    using pset_find_eviction_iff [OF k ag] by (simp add: evictions.agree_def m [symmetric] Bex_def)
qed

theorem eviction_lookup_exact_witness:
  "\<exists>x y. pset_find_eviction tiny_mem 0x2abc 1 (eviction_ops 0 [Ins x, Ins y, Del x] tiny_shared) \<and>
     \<not> pset_find_eviction tiny_mem 0x1abc 1 (eviction_ops 0 [Ins x, Ins y, Del x] tiny_shared)"
proof -
  let ?x = "\<lparr>pe_slot = Some 0, pe_address = 0x1000, pe_owner = 1, pe_pcm = 0\<rparr>" and ?y = "\<lparr>pe_slot = Some 1, pe_address = 0x2000, pe_owner = 1, pe_pcm = 1\<rparr>"
  have l: "eviction_list (pset tiny_shared 0) = []" "nr_eviction_entries (pset tiny_shared 0) = 0"
    by (simp_all add: tiny_shared_def init_pcache_set_def)
  have "pset_find_eviction tiny_mem 0x2abc 1 (eviction_ops 0 [Ins ?x, Ins ?y, Del ?x] tiny_shared)"
    using eviction_lookup_exact [of 0 tiny_mem "0x2abc" tiny_shared "[Ins ?x, Ins ?y, Del ?x]" 1] l
    by (simp add: same_thread_group_def PAGE_MASK_def PAGE_SIZE_def del: eviction_ops.simps)
  moreover have "\<not> pset_find_eviction tiny_mem 0x1abc 1 (eviction_ops 0 [Ins ?x, Ins ?y, Del ?x] tiny_shared)"
    using eviction_lookup_exact [of 0 tiny_mem "0x1abc" tiny_shared "[Ins ?x, Ins ?y, Del ?x]" 1] l
    by (simp add: same_thread_group_def PAGE_MASK_def PAGE_SIZE_def del: eviction_ops.simps)
  ultimately show ?thesis by blast
qed

subsection \<open>Write protection faults\<close>

definition write_fault :: "penv \<Rightarrow> nat \<Rightarrow> u64 \<Rightarrow> u64 \<Rightarrow> pstate \<Rightarrow> nat \<Rightarrow> bool" where
  "write_fault e mm address flags s p \<longleftrightarrow> quiet e s \<and> fault_context e mm \<and> (\<forall>s. others e s = s) \<and> pte_alloc_ok e mm address \<and>
     maps_line e s (pte_ptr e mm address) p \<and> flags AND FAULT_FLAG_WRITE \<noteq> 0 \<and> \<not> pte_write (ptes s (pte_ptr e mm address))"

text \<open>The page table lock is taken, the rest is the handling of a write protection fault.\<close>

lemma write_fault_start:
  fixes e mm address s
  defines "u \<equiv> s\<lparr>ptl_held := {pte_lockptr e mm address}\<rparr>"
  assumes "write_fault e mm address flags s p"
  shows "pcache_handle_fault e mm address flags s = pcache_do_wp_page e mm address (pte_ptr e mm address) (pte_lockptr e mm address) (ptes u (pte_ptr e mm address)) u"
    "pinv e {} {} None u" "maps_line e u (pte_ptr e mm address) p" "meta u = meta s" "pset u = pset s"
  using assms(2) by (simp_all add: u_def write_fault_def quiet_def maps_line_def pcache_handle_fault_def pcache_handle_pte_fault_def Let_def
    spin_lock_ptl_def del: pte_present_bit pte_write_bit)

lemma locked_victim:
  assumes inv: "pinv e {} {} None s" and m: "maps_line e s x p" and mc: "mapcount (meta s p) \<noteq> 1"
  shows "victim_of k (SetPcache PC_locked p s) = victim_of k s" "victim_unlocked e k (SetPcache PC_locked p s) = victim_unlocked e k s"
proof -
  have p: "p < nl e" by (rule maps_in_range [OF pinvD(1) [OF inv] m])
  then have "refcount (meta s p) \<noteq> 1" using mapped_lines(2) [OF inv p] mc by simp
  then have ev: "evictable (SetPcache PC_locked p s) q = evictable s q" for q by (simp add: evictable_def SetPcache_def upd_meta_def)
  then have "evictable (SetPcache PC_locked p s) = evictable s" by auto
  moreover have "pset (SetPcache PC_locked p s) = pset s" "ptl_held (SetPcache PC_locked p s) = ptl_held s"
    "rmap (meta (SetPcache PC_locked p s) q) = rmap (meta s q)" for q by (simp_all add: SetPcache_def upd_meta_def)
  ultimately show v: "victim_of k (SetPcache PC_locked p s) = victim_of k s" "victim_unlocked e k (SetPcache PC_locked p s) = victim_unlocked e k s"
    by (simp_all add: victim_of_def victim_unlocked_def cong: option.case_cong)
qed

text \<open>(C11) A write to a write protected page whose line nobody else maps makes the entry writable, dirty and
  young in place; nothing is copied or sent.
\<close>

theorem write_fault_reuses:
  assumes wf: "write_fault e mm address flags s p" and one: "mapcount (meta s p) = 1"
  shows "\<exists>t. pcache_handle_fault e mm address flags s = Some (0, t) \<and> quiet e t \<and> line t = line s \<and> net t = net s \<and>
    ptes t = (ptes s)(pte_ptr e mm address := pte_mkwrite (pte_mkdirty (pte_mkyoung (ptes s (pte_ptr e mm address)))))"
proof -
  note st = write_fault_start [OF wf]
  have c: "mm = task_mm (task e (current e))" "0 < alloc_rounds e" "thread_group_leader e (group_leader (task e (current e)))"
    using wf by (simp_all add: write_fault_def fault_context_def)
  show ?thesis unfolding st(1)
    by (rule pcache_do_wp_page_cases [OF st(2) _ st(3) refl c(1,2) refl _ c(3), of "pte_lockptr e mm address"])
      (use one in \<open>simp_all add: quiet_def\<close>)
qed

definition tiny_protected :: pstate where
  "tiny_protected = tiny_shared\<lparr>ptes := (ptes tiny_shared)(2 ^ 52 + 2 := 0x11065)\<rparr>"

lemma tiny_protected_fault: "write_fault tiny_mem 1 0x2000 1 tiny_protected 1"
proof -
  have v: "pte_pfn (0x11065 :: pte) = pte_pfn 0x11067" by (simp add: pte_pfn_def PTE_PFN_MASK_def)
  have "same_frames (ptes tiny_shared) ((ptes tiny_shared)(2 ^ 52 + 2 := 0x11065))"
    by (rule same_frames_upd) (simp_all add: tiny_shared_def tiny_blank_def v)
  then have "quiet tiny_mem tiny_protected"
    using pinv_same_frames [OF tiny_shared_inv] tiny_quiet(2) by (simp add: quiet_def tiny_protected_def)
  moreover have "pte_to_pcache_meta tiny_geom 0x11065 = Some 1" using pte_same_frame [OF v, of tiny_geom] tiny_ptes(3) by simp
  ultimately show ?thesis using tiny_context by (simp add: write_fault_def tiny_protected_def maps_line_def FAULT_FLAG_WRITE_def)
qed

theorem write_fault_reuses_witness:
  "\<exists>t. pcache_handle_fault tiny_mem 1 0x2000 1 tiny_protected = Some (0, t) \<and> quiet tiny_mem t"
  using write_fault_reuses [OF tiny_protected_fault] by (auto simp: tiny_protected_def tiny_shared_def)

text \<open>(C12) A write to a page whose line others map too, when the victim of the allocation is not mapped under the
  page table lock of the fault: the fault returns; it gives the writer a private line of the right set with the
  same contents, mapped writable and dirty, and takes one mapping from the shared line, whose contents stay.
  It fails only when the set has no free line and no line that can be evicted, and then changes nothing.
\<close>

theorem write_fault_copies:
  assumes wf: "write_fault e mm address flags s p" and more: "mapcount (meta s p) \<noteq> 1" and k: "k = user_vaddr_to_pcache_set (geom e) address"
    and ptl: "victim_unlocked e k (s\<lparr>ptl_held := {pte_lockptr e mm address}\<rparr>)"
  shows "\<exists>ret t. pcache_handle_fault e mm address flags s = Some (ret, t) \<and> quiet e t \<and>
    (if ret = 0 then \<exists>new. maps_line e t (pte_ptr e mm address) new \<and> new \<noteq> p \<and> set_of e new = k \<and>
        pte_write (ptes t (pte_ptr e mm address)) \<and> pte_dirty (ptes t (pte_ptr e mm address)) \<and>
        line t = (line s)(new := line s p) \<and> mapcount (meta t p) = mapcount (meta s p) - 1
     else ret = VM_FAULT_OOM \<and> free_head (pset s k) = [] \<and> victim_of k s = None \<and> ptes t = ptes s \<and> line t = line s \<and> net t = net s)"
proof -
  let ?u = "s\<lparr>ptl_held := {pte_lockptr e mm address}\<rparr>"
  note st = write_fault_start [OF wf]
  have mc: "mapcount (meta ?u p) \<noteq> 1" using more by simp
  note lv = locked_victim [OF st(2,3) mc]
  have c: "mm = task_mm (task e (current e))" "0 < alloc_rounds e" "thread_group_leader e (group_leader (task e (current e)))"
    using wf by (simp_all add: write_fault_def fault_context_def)
  have p: "p < nl e" by (rule maps_in_range [OF pinvD(1) [OF st(2)] st(3)])
  have len: "mapcount (meta t p) = int (length (rmap (meta t p)))" if "pinv e {} {} None t" for t
    using line_okD [OF pinvD(3) [OF that] p] by (simp add: line_ok_def meta_ok_def Let_def)
  have vs: "victim_of k ?u = victim_of k s" "VM_FAULT_OOM \<noteq> 0" by (simp_all add: victim_of_def evictable_def [abs_def] VM_FAULT_OOM_def)
  have ptl': "victim_unlocked e k (SetPcache PC_locked p ?u)" using lv(2) ptl by simp
  show ?thesis
  proof (cases rule: pcache_do_wp_page_cases [OF st(2) _ st(3) refl c(1,2) k ptl' c(3), of "pte_lockptr e mm address", case_names fresh reused oom copied])
    case (oom s')
    then show ?thesis using lv(1) vs st(1) by (auto simp: quiet_def)
  next
    case (copied new s1 v s')
    then have "mapcount (meta s' p) = mapcount (meta s p) - 1" using len [OF copied(2)] len [OF st(2)] by simp
    then show ?thesis using copied st(1) by (auto simp: quiet_def)
  qed (use more in simp_all)
qed

text \<open>The child of the small cache, running.\<close>

definition tiny_child :: penv where
  "tiny_child = tiny_mem\<lparr>current := 2\<rparr>"

lemma tiny_write_faults: "write_fault tiny_child 2 0x1000 1 tiny_shared 0" "write_fault tiny_mem 1 0x1000 1 tiny_shared 0"
  "mapcount (meta tiny_shared 0) \<noteq> 1"
  using tiny_quiet(2) tiny_context tiny_ptes unfolding write_fault_def fault_context_def tiny_child_def quiet_def
  by (simp_all add: maps_line_def) (simp_all add: tiny_shared_def tiny_blank_def FAULT_FLAG_WRITE_def)

lemma tiny_victim_lock: "victim_unlocked e k (tiny_shared\<lparr>ptl_held := {l}\<rparr>) \<longleftrightarrow> pte_lockptr e 1 0x2000 \<noteq> l"
proof -
  have "victim_of k (tiny_shared\<lparr>ptl_held := {l}\<rparr>) = Some 1" "free_head (pset tiny_shared k) = []"
    by (simp_all add: victim_of_def evictable_def tiny_shared_def tiny_blank_def init_pcache_set_def)
  moreover have "rmap (meta tiny_shared 1) = [tiny_rmap (Some 1) 1 0x2000 RMAP_FILL_PAGE_REMOTE]" by (simp add: tiny_shared_def)
  ultimately show ?thesis by (simp add: victim_unlocked_def tiny_rmap_def)
qed

theorem write_fault_copies_witness:
  "\<exists>ret t. pcache_handle_fault tiny_child 2 0x1000 1 tiny_shared = Some (ret, t) \<and> (ret = 0 \<longrightarrow> (\<exists>new. new \<noteq> 0 \<and> maps_line tiny_child t (2 ^ 53 + 1) new))"
proof -
  have "victim_unlocked tiny_child k (tiny_shared\<lparr>ptl_held := {pte_lockptr tiny_child 2 0x1000}\<rparr>)" for k
    by (simp add: tiny_victim_lock) (simp add: tiny_child_def)
  moreover have "pte_ptr tiny_child 2 0x1000 = 2 ^ 53 + 1" by (simp add: tiny_child_def)
  ultimately show ?thesis using write_fault_copies [OF tiny_write_faults(1,3) refl] by (auto split: if_splits)
qed

text \<open>(C13) The handler can wait for itself. A write fault on a shared page takes the page table lock and then
  allocates a line; when the victim of that allocation is mapped by an entry under the same lock, unmapping it
  waits for the lock the handler holds. The fault deadlocks in exactly this case.
\<close>

theorem write_fault_deadlock:
  assumes wf: "write_fault e mm address flags s p" and more: "mapcount (meta s p) \<noteq> 1" and k: "k = user_vaddr_to_pcache_set (geom e) address"
  shows "pcache_handle_fault e mm address flags s = None \<longleftrightarrow>
    free_head (pset s k) = [] \<and> (\<exists>v r. victim_of k s = Some v \<and> r \<in> set (rmap (meta s v)) \<and>
      pte_lockptr e (owner_mm r) (rm_address r) = pte_lockptr e mm address)"
proof -
  let ?u = "s\<lparr>ptl_held := {pte_lockptr e mm address}\<rparr>"
  note st = write_fault_start [OF wf]
  have mc: "mapcount (meta ?u p) \<noteq> 1" using more by simp
  have c: "mm = task_mm (task e (current e))" "0 < alloc_rounds e" "thread_group_leader e (group_leader (task e (current e)))"
    using wf by (simp_all add: write_fault_def fault_context_def)
  have vs: "victim_of k ?u = victim_of k s" by (simp add: victim_of_def evictable_def [abs_def])
  have "pcache_handle_fault e mm address flags s = None \<longleftrightarrow> \<not> victim_unlocked e k ?u"
  proof
    assume "\<not> victim_unlocked e k ?u"
    then show "pcache_handle_fault e mm address flags s = None"
      using pcache_do_wp_page_deadlock [OF st(2) _ st(3) refl mc k] locked_victim(2) [OF st(2,3) mc, of k] st(1) by simp
  next
    assume "pcache_handle_fault e mm address flags s = None"
    then have n: "pcache_do_wp_page e mm address (pte_ptr e mm address) (pte_lockptr e mm address) (ptes ?u (pte_ptr e mm address)) ?u = None" using st(1) by simp
    show "\<not> victim_unlocked e k ?u"
    proof
      assume "victim_unlocked e k ?u"
      then have ptl: "victim_unlocked e k (SetPcache PC_locked p ?u)" using locked_victim(2) [OF st(2,3) mc, of k] by simp
      show False
        by (rule pcache_do_wp_page_cases [OF st(2) _ st(3) refl c(1,2) k ptl c(3), of "pte_lockptr e mm address"]) (use n in simp_all)
    qed
  qed
  then show ?thesis by (auto simp: victim_unlocked_def vs split: option.split)
qed

theorem write_fault_deadlock_witness: "pcache_handle_fault tiny_mem 1 0x1000 1 tiny_shared = None"
proof -
  have "tiny_rmap (Some 1) 1 0x2000 RMAP_FILL_PAGE_REMOTE \<in> set (rmap (meta tiny_shared 1))" by (simp add: tiny_shared_def)
  moreover have "pte_lockptr tiny_mem (owner_mm (tiny_rmap (Some 1) 1 0x2000 RMAP_FILL_PAGE_REMOTE)) a = pte_lockptr tiny_mem 1 0x1000" for a
    by (simp add: tiny_rmap_def)
  ultimately show ?thesis using write_fault_deadlock [OF tiny_write_faults(2,3) refl] tiny_victim by auto
qed

subsection \<open>Ranges of the address space\<close>

definition tiny_levels :: pt_levels where
  "tiny_levels = \<lparr>pgd_none = (\<lambda>_ _. False), pud_none = (\<lambda>_ _. False), pmd_none = (\<lambda>_ _. False),
     pud_alloc_ok = (\<lambda>_ _. True), pmd_alloc_ok = (\<lambda>_ _. True)\<rparr>"

lemma tiny_levels_ok [simp]: "levels_ok tiny_levels e mm s"
  by (simp add: levels_ok_def tiny_levels_def)

lemma tiny_pages_aligned [simp]: "page_aligned 0x1000" "page_aligned 0x2000" "page_aligned 0x3000"
  by (simp_all add: page_aligned_def)

text \<open>(C14) Unmapping a range succeeds and clears it: of every address in it, the page table entry is empty
  afterwards, zero-fill marks included. The exceptions are addresses for which an upper level of the page
  table is empty, which have no entry, and an entry whose frame is not in the cache, which the
  code reports and leaves as it is. No line is mapped in the range any more; page tables outside the range,
  the contents of lines and memory stay as they were, and the invariant holds again: every line that lost its
  last mapping is free.
\<close>

theorem unmap_clears_range:
  assumes "quiet e s" "levels_ok w e mm s" "a < b" "page_aligned a" "page_aligned b"
  shows "\<exists>t. unmap_page_range w e mm a b s = Some t \<and> quiet e t \<and>
    (\<forall>c. a \<le> c \<and> c < b \<longrightarrow> pte_none (ptes t (pte_ptr e mm c)) \<or>
       ptes t (pte_ptr e mm c) = ptes s (pte_ptr e mm c) \<and> (under_empty w mm c \<or>
         pte_present (ptes s (pte_ptr e mm c)) \<and> pte_to_pcache_meta (geom e) (ptes s (pte_ptr e mm c)) = None)) \<and>
    (\<forall>c p. a \<le> c \<and> c < b \<longrightarrow> \<not> maps_line e t (pte_ptr e mm c) p) \<and>
    (\<forall>mm' c. mm' \<noteq> mm \<or> c < a \<or> b \<le> c \<longrightarrow> ptes t (pte_ptr e mm' c) = ptes s (pte_ptr e mm' c)) \<and>
    line t = line s \<and> net t = net s"
proof -
  have env: "env_ok e" using assms(1) pinvD(1) unfolding quiet_def by blast
  have "range_ready w e mm {} s" using assms(1,2) by (simp add: range_ready_def quiet_def)
  then obtain t where t: "unmap_page_range w e mm a b s = Some t" "unmapped e mm a b s t" "range_ready w e mm {} t" "wiped w e mm a b s t"
    using unmap_page_range_ok [OF assms(3-5)] by blast
  have "ptes t (pte_ptr e mm' c) = ptes s (pte_ptr e mm' c)" if "mm' \<noteq> mm \<or> c < a \<or> b \<le> c" for mm' c
    using outside_range [OF env assms(4,5) that] t(2) unfolding unmapped_def by blast
  moreover have "\<forall>c. a \<le> c \<and> c < b \<longrightarrow> pte_none (ptes t (pte_ptr e mm c)) \<or>
       ptes t (pte_ptr e mm c) = ptes s (pte_ptr e mm c) \<and> (under_empty w mm c \<or>
         pte_present (ptes s (pte_ptr e mm c)) \<and> pte_to_pcache_meta (geom e) (ptes s (pte_ptr e mm c)) = None)"
    using t(4) unfolding wiped_def entry_cleared_def by blast
  ultimately show ?thesis using t(1-3) unfolding unmapped_def range_ready_def quiet_def by blast
qed

theorem unmap_clears_range_witness:
  "\<exists>t. unmap_page_range tiny_levels tiny_mem 1 0x1000 0x4000 tiny_zero = Some t \<and> \<not> maps_line tiny_mem t (2 ^ 52 + 1) 0 \<and>
     pte_zerofill (ptes tiny_zero (2 ^ 52 + 3)) \<and> pte_none (ptes t (2 ^ 52 + 3))"
proof -
  have "page_aligned 0x4000" by (simp add: page_aligned_def)
  then obtain t where t: "unmap_page_range tiny_levels tiny_mem 1 0x1000 0x4000 tiny_zero = Some t"
      "\<forall>c. 0x1000 \<le> c \<and> c < 0x4000 \<longrightarrow> pte_none (ptes t (pte_ptr tiny_mem 1 c)) \<or>
       ptes t (pte_ptr tiny_mem 1 c) = ptes tiny_zero (pte_ptr tiny_mem 1 c) \<and> (under_empty tiny_levels 1 c \<or>
         pte_present (ptes tiny_zero (pte_ptr tiny_mem 1 c)) \<and> pte_to_pcache_meta (geom tiny_mem) (ptes tiny_zero (pte_ptr tiny_mem 1 c)) = None)"
      "\<forall>c p. 0x1000 \<le> c \<and> c < 0x4000 \<longrightarrow> \<not> maps_line tiny_mem t (pte_ptr tiny_mem 1 c) p"
    using unmap_clears_range [OF tiny_zero_quiet tiny_levels_ok, of "0x1000" "0x4000" 1] by auto
  have "\<not> under_empty tiny_levels 1 c" for c by (simp add: under_empty_def tiny_levels_def)
  moreover have "\<not> pte_present (ptes tiny_zero (2 ^ 52 + 3))" "pte_zerofill (ptes tiny_zero (2 ^ 52 + 3))" by (simp_all add: tiny_zero_def)
  moreover have "pte_ptr tiny_mem 1 0x3000 = 2 ^ 52 + 3" "pte_ptr tiny_mem 1 0x1000 = 2 ^ 52 + 1" by simp_all
  ultimately show ?thesis using t(1) spec [OF t(2), of "0x3000"] spec [OF t(3), of "0x1000"] by (auto simp del: pte_present_bit)
qed

text \<open>(C15) Tearing down the address space of an exiting process succeeds: the range ends up with no present
  entry at all, the page tables of other processes are not touched, and the invariant holds. Nothing is sent to
  memory: dirty lines of the range are dropped, not flushed.
\<close>

theorem release_clears_range:
  assumes "quiet e s" "levels_ok w e (task_mm (task e c)) s" "a < b" "page_aligned a" "page_aligned b"
  shows "\<exists>t. release_pgtable w e c a b s = Some t \<and> quiet e t \<and>
    (\<forall>d. a \<le> d \<and> d < b \<longrightarrow> \<not> pte_present (ptes t (pte_ptr e (task_mm (task e c)) d))) \<and>
    (\<forall>mm d. mm \<noteq> task_mm (task e c) \<longrightarrow> ptes t (pte_ptr e mm d) = ptes s (pte_ptr e mm d)) \<and> net t = net s"
proof -
  let ?mm = "task_mm (task e c)"
  have env: "env_ok e" using assms(1) pinvD(1) unfolding quiet_def by blast
  have "range_ready w e ?mm {} s" using assms(1,2) by (simp add: range_ready_def quiet_def)
  then obtain t where t: "release_pgtable w e c a b s = Some t" "unmapped e ?mm a b s t" "range_ready w e ?mm {} t"
      "\<forall>d. a \<le> d \<and> d < b \<longrightarrow> \<not> pte_present (ptes t (pte_ptr e ?mm d))"
    using release_pgtable_ok [OF assms(3-5) refl] by blast
  have "ptes t (pte_ptr e mm d) = ptes s (pte_ptr e mm d)" if "mm \<noteq> ?mm" for mm d
    using outside_range [OF env assms(4,5), of mm ?mm d] that t(2) unfolding unmapped_def by blast
  then show ?thesis using t unfolding range_ready_def quiet_def unmapped_def by blast
qed

theorem release_clears_range_witness:
  "\<exists>t. release_pgtable tiny_levels tiny_mem 1 0x1000 0x3000 tiny_shared = Some t \<and> \<not> pte_present (ptes t (2 ^ 52 + 1))"
proof -
  obtain t where "release_pgtable tiny_levels tiny_mem 1 0x1000 0x3000 tiny_shared = Some t"
      "\<forall>d. 0x1000 \<le> d \<and> d < 0x3000 \<longrightarrow> \<not> pte_present (ptes t (pte_ptr tiny_mem (task_mm (task tiny_mem 1)) d))"
    using release_clears_range [OF tiny_quiet(2) tiny_levels_ok, of "0x1000" "0x3000" 1] by auto
  then show ?thesis by (intro exI [of _ t]) (auto dest: spec [of _ "0x1000"])
qed

text \<open>(C16) Forking a private writable range, with \<open>kzalloc\<close> never failing and the parent's pages duplicated in the memory
  component: the copy returns 0 or -ENOMEM and keeps the invariant; when it returns 0 the child reads the
  parent's data in the range, cached or not, dirty or clean, the parent still reads its own, and neither can write
  a page of the range without a fault.
\<close>

theorem fork_shares_pages:
  assumes env: "env_fits e" and memory: "\<forall>n. kzalloc_ok e n" and q: "quiet e s" and cc: "cache_coherent e tg M0 s"
    and ab: "a < b" "page_aligned a" "page_aligned b"
    and w: "levels_ok w e src s" and ne: "dst \<noteq> src" and pr: "thread_group_leader e proc" "tgid (task e proc) = tg dst"
    and cr: "child_rmaps e dst src proc s" and new: "\<forall>d. a \<le> d \<and> d < b \<longrightarrow> \<not> pte_present (ptes s (pte_ptr e dst d))"
    and cow: "is_cow_mapping flags"
    and dup: "\<forall>d. a \<le> d \<and> d < b \<longrightarrow> memory M0 (net s) (tg dst) (d AND PAGE_MASK) = memory M0 (net s) (tg src) (d AND PAGE_MASK)"
  shows "\<exists>ret t. pcache_copy_page_range w e dst src a b flags proc s = Some (ret, t) \<and> quiet e t \<and> ret \<in> {0, - ENOMEM} \<and>
    (ret = 0 \<longrightarrow> cache_coherent e tg M0 t \<and> (\<forall>d. a \<le> d \<and> d < b \<longrightarrow>
       pview e tg M0 t dst d = pview e tg M0 s src d \<and> pview e tg M0 t src d = pview e tg M0 s src d \<and>
       \<not> (pte_present (ptes t (pte_ptr e dst d)) \<and> pte_write (ptes t (pte_ptr e dst d))) \<and>
       \<not> (pte_present (ptes t (pte_ptr e src d)) \<and> pte_write (ptes t (pte_ptr e src d)))))"
proof -
  have inv: "pinv e {} {} None s" "ptl_held s = {}" and mem: "\<And>n. kzalloc_ok e n" using q memory by (simp_all add: quiet_def)
  have st: "forked e dst src proc flags a b s {} a s" by (rule forked_start [OF inv cr ab(1) new])
  obtain ret t where r: "pcache_copy_page_range w e dst src a b flags proc s = Some (ret, t)"
      "if ret = 0 then forked e dst src proc flags a b s {} b t else ret = - ENOMEM \<and> (\<exists>c. forked e dst src proc flags a b s {} c t)"
    using pcache_copy_page_range_ok [OF st ab order_refl ne pr(1) mem _ _ w] unfolding fork_result_def by auto
  have qt: "quiet e t" using r(2) forkedD(1,2) by (auto simp: quiet_def split: if_splits)
  have "cache_coherent e tg M0 t \<and> (\<forall>d. a \<le> d \<and> d < b \<longrightarrow>
       pview e tg M0 t dst d = pview e tg M0 s src d \<and> pview e tg M0 t src d = pview e tg M0 s src d \<and>
       \<not> (pte_present (ptes t (pte_ptr e dst d)) \<and> pte_write (ptes t (pte_ptr e dst d))) \<and>
       \<not> (pte_present (ptes t (pte_ptr e src d)) \<and> pte_write (ptes t (pte_ptr e src d))))" if "ret = 0"
  proof -
    have fk: "forked e dst src proc flags a b s {} b t" using r(2) that by simp
    note fc = fork_coherent [OF fk cow ne new _ pr(2) cc]
    have d: "memory M0 (net s) (tg dst) (d AND PAGE_MASK) = memory M0 (net s) (tg src) (d AND PAGE_MASK)" if "a \<le> d" "d < b" for d using dup that by blast
    have sep: "pte_ptr e src d \<noteq> pte_ptr e dst d'" for d d' using page_walkD(3) [OF pinvD(1) [OF inv(1)]] ne by blast
    have wr: "\<not> (pte_present (ptes t (pte_ptr e dst d)) \<and> pte_write (ptes t (pte_ptr e dst d))) \<and>
       \<not> (pte_present (ptes t (pte_ptr e src d)) \<and> pte_write (ptes t (pte_ptr e src d)))" if "a \<le> d" "d < b" for d
    proof (cases "pte_present (ptes s (pte_ptr e src d))")
      case True
      then show ?thesis using forkedD(7) [OF fk that] cow_ptes(1,2) [OF cow] by (simp add: copied_page_def Let_def del: pte_present_bit pte_write_bit)
    next
      case False
      then show ?thesis using forkedD(7) [OF fk that] new that by (auto simp: copied_page_def Let_def simp del: pte_present_bit pte_write_bit)
    qed
    have "pview e tg M0 t dst d = pview e tg M0 s src d" if "a \<le> d" "d < b" for d by (rule fc(2) [OF d that])
    moreover have "pview e tg M0 t src d = pview e tg M0 s src d" for d by (rule fc(3)) (use d sep in blast)+
    ultimately show ?thesis using fc(1) [OF d] wr by simp
  qed
  then show ?thesis using r qt by (auto split: if_splits)
qed

theorem fork_shares_pages_witness:
  "\<exists>ret t. pcache_copy_page_range tiny_levels tiny_mem 2 1 0x2000 0x3000 VM_WRITE 2 tiny_shared = Some (ret, t) \<and> quiet tiny_mem t \<and>
     (ret = 0 \<longrightarrow> pview tiny_mem id tiny_pages t 2 0x2000 = pview tiny_mem id tiny_pages tiny_shared 1 0x2000)"
proof -
  have "child_rmaps tiny_mem 2 1 2 tiny_shared"
    by (auto simp: child_rmaps_def tiny_shared_def tiny_rmap_def)
  moreover have "\<not> pte_present (ptes tiny_shared (pte_ptr tiny_mem 2 d))" if "0x2000 \<le> d" "d < 0x3000" for d
  proof -
    have "unat d div 4096 = 2" using that by (simp add: word_le_nat_alt word_less_nat_alt)
    then show ?thesis by (simp add: tiny_shared_def tiny_blank_def)
  qed
  moreover have "is_cow_mapping VM_WRITE" "tgid (task tiny_mem 2) = id 2"
    by (simp_all add: is_cow_mapping_def VM_WRITE_def VM_SHARED_def tiny_env_def)
  moreover have "memory tiny_pages (net tiny_shared) m c = memory tiny_pages (net tiny_shared) m' c'" for m c m' c'
    by (simp add: tiny_shared_def tiny_blank_def tiny_pages_def)
  moreover have "\<not> (0x3000 \<le> (0x2000 :: u64))" "(0x2000 :: u64) \<le> 0x2000" "(0x2000 :: u64) < 0x3000" by simp_all
  moreover have "(2 :: nat) \<noteq> 1" "thread_group_leader tiny_mem 2" "\<forall>n. kzalloc_ok tiny_mem n" by simp_all
  ultimately show ?thesis
    using fork_shares_pages [OF tiny_fits(2) _ tiny_quiet(2) tiny_shared_coherent _ tiny_pages_aligned(2,3) tiny_levels_ok, of 2 1 2 VM_WRITE] by blast
qed

lemma add_rmap_no_memory:
  assumes "PC_locked \<notin> bits (meta s p)" "p < nl e" "rmap_used s p" "\<forall>n. \<not> kzalloc_ok e n"
  shows "pcache_add_rmap e p ptep a mm proc c s = Some (- ENOMEM, s\<lparr>nr_kzalloc := Suc (nr_kzalloc s)\<rparr>)"
proof -
  have "(meta s p)\<lparr>bits := insert PC_locked (bits (meta s p)) - {PC_locked}\<rparr> = meta s p" using assms(1) by simp
  then show ?thesis using assms meta_index [OF assms(2)]
    by (simp add: pcache_add_rmap_def lock_pcache_def unlock_pcache_def PcacheBit_def SetPcache_def ClearPcache_def upd_meta_def
      alloc_pcache_rmap_def kzalloc_def bug_on_def)
qed

text \<open>(C17) Fork reports success when it runs out of memory for a reverse mapping: the failure of
  \<open>pcache_add_rmap\<close> is dropped, the child's entry maps the line, and the line has no reverse mapping for it. Evicting
  the line will not find the child, which keeps reading a line that by then belongs to someone else.
\<close>

theorem fork_drops_rmap_failure:
  assumes inv: "pinv e {} {} None s" and m: "maps_line e s (pte_ptr e src a) p" and ab: "\<not> pte_present (ptes s (pte_ptr e dst a))"
    and mem: "rmap_used s p" "\<forall>n. \<not> kzalloc_ok e n" and ne: "dst \<noteq> src"
  shows "\<exists>t. pcache_copy_pte e dst src flags proc a n s = Some (0, t) \<and> maps_line e t (pte_ptr e dst a) p \<and>
    (\<nexists>r. r \<in> set (rmap (meta t p)) \<and> page_table r = pte_ptr e dst a)"
proof -
  let ?s = "pte_ptr e src a" and ?d = "pte_ptr e dst a"
  let ?v = "ptes s ?s"
  have p: "p < nl e" by (rule maps_in_range [OF pinvD(1) [OF inv] m])
  have pr: "pte_present ?v" "pte_to_pcache_meta (geom e) ?v = Some p" using m by (simp_all add: maps_line_def del: pte_present_bit)
  have lo: "line_ok e {} {} None s p" by (rule line_okD [OF pinvD(3) [OF inv] p])
  have rm: "\<not> (\<exists>r \<in> set (rmap (meta s p)). page_table r = ?d)"
    using lo ab by (auto simp: line_ok_def meta_ok_def Let_def rmap_ok_def maps_line_def)
  have rc: "0 < refcount (meta s p)" using mapped_lines(1,2) [OF inv p] m rmap_unique [OF inv p] lo
    by (auto simp: line_ok_def meta_ok_def Let_def)
  let ?c = "child_pte flags ?v"
  define u where "u = pte_set ?d ?c (protect_parent e src flags a s)"
  have u: "meta u = meta s" "rmap_used u = rmap_used s" "ptes u ?d = ?c" by (simp_all add: u_def protect_parent_def pte_set_def flush_tlb_mm_range_def Let_def)
  have fr: "pte_to_pcache_meta (geom e) ?c = Some p" using pte_same_frame [of ?c ?v "geom e"] pr(2) by simp
  let ?w = "pcache_ref_count_inc p u"
  have w: "PC_locked \<notin> bits (meta ?w p)" "rmap_used ?w p" "rmap (meta ?w p) = rmap (meta s p)" "ptes ?w = ptes u"
    using lo mem(1) u by (auto simp: line_ok_def pcache_ref_count_inc_def upd_meta_def)
  have "pcache_copy_pte e dst src flags proc a n s = do { t \<leftarrow> get_pcache p u; (_, t) \<leftarrow> pcache_add_rmap e p ?d a dst proc RMAP_FORK t; Some (0, t) }"
    by (simp add: copy_pte_present [OF pr(1)] Let_def fr u_def split_def)
  also have "\<dots> = Some (0, ?w\<lparr>nr_kzalloc := Suc (nr_kzalloc ?w)\<rparr>)"
    using rc u(1) add_rmap_no_memory [OF w(1) p w(2) mem(2)] by (simp add: get_pcache_def pcache_ref_count_def)
  finally show ?thesis using rm w(3,4) u(3) fr pr(1) by (auto simp: maps_line_def simp del: pte_present_bit)
qed

theorem fork_drops_rmap_failure_witness:
  "\<exists>t. pcache_copy_pte (tiny_mem\<lparr>kzalloc_ok := \<lambda>_. False\<rparr>) 2 1 VM_WRITE 2 0x2000 0x3000 tiny_shared = Some (0, t) \<and>
     maps_line (tiny_mem\<lparr>kzalloc_ok := \<lambda>_. False\<rparr>) t (2 ^ 53 + 2) 1 \<and> (\<nexists>r. r \<in> set (rmap (meta t 1)) \<and> page_table r = 2 ^ 53 + 2)"
proof -
  let ?e = "tiny_mem\<lparr>kzalloc_ok := \<lambda>_. False\<rparr>"
  have "pinv ?e = pinv tiny_mem" by (rule pinv_env_cong) simp_all
  then have "pinv ?e {} {} None tiny_shared" using tiny_quiet(2) by (simp add: quiet_def)
  moreover have "maps_line ?e tiny_shared (pte_ptr ?e 1 0x2000) 1" using tiny_shared_maps [of "2 ^ 52 + 2" 1] by (simp add: maps_line_def)
  moreover have "\<not> pte_present (ptes tiny_shared (pte_ptr ?e 2 0x2000))" "rmap_used tiny_shared 1" by (simp_all add: tiny_shared_def tiny_blank_def)
  ultimately show ?thesis using fork_drops_rmap_failure [of ?e tiny_shared 1 "0x2000" 1 2] by simp
qed

subsection \<open>Ageing and start\<close>

text \<open>(C18) A round of the sweep thread returns, and all it does is to clear accessed bits and reorder LRU lists:
  no mapping, no line, no free list, no metadata and no message changes, and no line gets lost.
\<close>

theorem sweep_only_ages:
  assumes "quiet e s"
  shows "\<exists>t. kevict_sweepd_lru_round e s = Some t \<and> quiet e t \<and> meta t = meta s \<and> line t = line s \<and> net t = net s \<and>
    (\<forall>x. ptes t x = ptes s x \<or> ptes t x = pte_mkold (ptes s x)) \<and>
    (\<forall>k. free_head (pset t k) = free_head (pset s k) \<and> mset (lru_list (pset t k)) = mset (lru_list (pset s k)))"
proof -
  have "\<forall>k \<in> set [0..<unat (nr_cachesets (geom e))]. k < nsets e" by (simp add: nsets_def)
  then obtain t where "kevict_sweepd_lru_round e s = Some t" "pinv e {} {} None t" "sweep_effect s t"
    using kevict_sweepd_sets_ok [of e "{}" "{}" None s] assms unfolding kevict_sweepd_lru_round_def quiet_def by blast
  then show ?thesis using assms by (intro exI [of _ t]) (simp add: quiet_def sweep_effect_def aged_def)
qed

theorem sweep_only_ages_witness:
  "\<exists>t. kevict_sweepd_lru_round tiny_mem tiny_shared = Some t \<and> meta t = meta tiny_shared"
  using sweep_only_ages [OF tiny_quiet(2)] by blast

text \<open>(C19) Initialisation gives a cache in which every line of every set is free and unmapped and the invariant holds.\<close>

theorem boot_frees_all_lines:
  assumes "env_ok e" "blank_pcache s"
  shows "\<exists>t. pcache_post_init_maps (geom e) s = Some t \<and> quiet e t \<and> (\<forall>p < nl e. in_free e t p \<and> \<not> (\<exists>x. maps_line e t x p))"
proof -
  have nm: "\<not> maps_line e s x p" for x p using assms(2) by (simp add: blank_pcache_def maps_line_def)
  obtain t where t: "pcache_post_init_maps (geom e) s = Some t" "pinv e {} {} None t" "ptl_held t = ptl_held s" "ptes t = ptes s"
      "\<And>p. p < nl e \<Longrightarrow> in_free e t p"
    by (rule boot_pinv [OF assms(1) _ _ _ _ nm]) (use assms(2) in \<open>auto simp: blank_pcache_def\<close>)
  then show ?thesis using assms(2) nm by (auto simp: quiet_def blank_pcache_def maps_line_def)
qed

theorem boot_frees_all_lines_witness:
  "\<exists>t. pcache_post_init_maps tiny_geom tiny_blank = Some t \<and> in_free tiny_mem t 0 \<and> in_free tiny_mem t 1"
proof -
  have "env_ok tiny_mem" "blank_pcache tiny_blank" using tiny_fits(2) by (simp_all add: env_fits_def blank_pcache_def tiny_blank_def)
  then show ?thesis using boot_frees_all_lines by fastforce
qed

end
