(* ===== verification/Spec2Isabelle.thy ===== *)
theory Spec2Isabelle
  imports Pcache_Theorems
begin

text \<open>
  \<^bold>\<open>LegoOS: the processor cache and the page tables of the processor component.\<close>

  LegoOS splits a machine into processor, memory and storage components that talk over a network. A
  processor component has no main memory of its own but a large software managed cache, \<open>pcache\<close>: a
  reserved range of physical memory cut into lines, grouped in sets. User page tables map lines directly. A page
  fault picks a line of the set of the address, evicting one if need be, asks the memory component of the
  address for the contents, and maps the line; evicted dirty lines are flushed back. Fork shares lines copy on
  write, and munmap, exit and mremap edit the page tables. This development models that part, under
  \<open>src/managers/processor\<close>, in the configuration with the LRU algorithm, the per-set eviction list, zero fill and
  debugging checks, without counters and without memory replication. Two more options are off, as by default:
  \<open>CONFIG_PCACHE_ZEROFILL_NOTIFY_MEMORY\<close>, so \<open>submit_zerofill_notify_work\<close> is empty and memory is not told of zero
  fills, and \<open>CONFIG_DISTRIBUTED_VMA_PROCESSOR\<close>, so \<open>get_memory_node\<close> is the home node of the task.

  \<^bold>\<open>Conventions.\<close> Machine words are \<open>64 word\<close>. Every function takes the state and returns an option: \<open>None\<close> is a
  fatal check (\<open>BUG_ON\<close>), a lock that the caller holds itself, or a wait that never ends; a nested option is a
  C pointer that may be NULL. Results such as \<open>-ENOMEM\<close> are the integers of the code. Addresses of metadata are the
  indices of the lines, addresses of page table entries are natural numbers. Process ids and task pointers are natural
  numbers, and the counters of lines and sets are integers: neither is kept at its width, as a count is
  bounded by the number of entries counted.

  \<^bold>\<open>Theories.\<close>
  \<^item> \<open>Lego_Prelude\<close>: words and bit arithmetic (\<open>log2.h\<close>, \<open>bitops.h\<close>), fatal checks, and the contract of a list paired with
    a counter (locale \<open>counted_list\<close>, interpreted for the LRU lists in \<open>Pcache_State\<close> and for the eviction lists in
    \<open>Pcache_Evict\<close>).
  \<^item> \<open>X86_Pte\<close>: page table entries, their flags and frame (\<open>pgtable.h\<close>, \<open>pgtable_types.h\<close>).
  \<^item> \<open>Pcache_Geometry\<close>: \<open>init.c\<close> and the address conversions of \<open>pcache.h\<close>: where lines and metadata lie, which set an
    address belongs to, and that the conversions are inverse to each other (locale \<open>line_codec\<close>, for physical and kernel
    virtual addresses).
  \<^item> \<open>Pcache_State\<close>: the state \<open>pstate\<close> (metadata, sets, page table entries, contents of lines, messages sent, locks held)
    and the environment \<open>penv\<close>: layout, tasks, the page walk, whether allocations succeed, the answers of memory, and
    what other CPUs do to the state while this one waits (\<open>others\<close>). Bits, counts, lists, free lists and initialisation.
  \<^item> \<open>Pcache_Inv\<close>: the invariant \<open>pinv e L H B\<close>, with lines \<open>L\<close> locked, lines \<open>H\<close> allocated and not yet mapped, and the
    line \<open>B\<close> reserved for a piggybacked write-back; how elementary updates act on it, and that booting establishes it.
  \<^item> \<open>Pcache_Rmap\<close>: \<open>rmap.c\<close>, adding, removing and walking reverse mappings, unmapping, zapping.
  \<^item> \<open>Pcache_Evict\<close>: \<open>evict.c\<close>, \<open>evict_lru.c\<close>, \<open>perset.c\<close>, \<open>clflush.c\<close>, \<open>evict_sweep.c\<close> and \<open>pcache_alloc\<close>; the result of
    evicting and of allocating as explicit states.
  \<^item> \<open>Pcache_Fault\<close>: \<open>fault.c\<close> and the moving of entries; the two ways to fill a line share the locale \<open>line_fill\<close>.
  \<^item> \<open>Pcache_Sweep\<close>: what the sweep thread and write protection change.
  \<^item> \<open>Pcache_Pgtable\<close>: \<open>managers/processor/pgtable.c\<close>, ranges of the page tables; the upper levels are predicates that
    say which entries are empty, and the loops over a range are one function with a termination proof.
  \<^item> \<open>Pcache_Handler\<close>, \<open>Pcache_Fork\<close>: the fault handler and the copying of fork as wholes.
  \<^item> \<open>Pcache_Coherence\<close>: what processes read (\<open>pview\<close>) through the cache and memory, and that every operation
    keeps it.
  \<^item> \<open>Pcache_Demo\<close>: a cache of one set and two lines with two processes, on which every theorem is applied.
  \<^item> \<open>Pcache_Props\<close>: faults, stores, sweeps, unmappings, exits and forks as the steps of one machine, its
    reachable states, and the flat memory it refines. \<open>Pcache_Theorems\<close>: the theorems.

  \<^bold>\<open>What is shown.\<close> The cache refines a flat memory: no run of faults, evictions, write-backs and sweeps changes what
  a process reads. In every reachable state counts, lists and reverse mappings agree with the page tables. Faults
  on absent pages always return, and fetch the page when a line is available; write faults reuse or copy the
  line; unmapping, exit, fork and the sweep do exactly what they should. The layout computed at boot is well
  formed for every range that holds one whole set, and has no set at all for a smaller one. Some theorems state
  defects: a write fault that deadlocks with itself, a fork that loses a reverse mapping, page table entries of
  the wrong frame for lines larger than a page, and a next way that is never NULL.

  \<^bold>\<open>Bounds.\<close> \<open>alloc_rounds\<close> is how often \<open>pcache_alloc\<close> may retry within its time limit; one retry is enough, as an
  eviction that succeeds leaves a line for the caller. \<open>spin_rounds\<close> bounds retries after \<open>-EAGAIN\<close> and the wait for an
  eviction in flight; the theorems hold for every value, since neither happens in a state of the invariant.

  \<^bold>\<open>Assumptions.\<close> \<open>env_ok\<close>: lines of one page, below the physical address limit, and distinct pages walked to distinct
  entries. \<open>fork_memory\<close>: if a run has forks, \<open>kzalloc\<close> never fails; runs without forks need no such assumption, and
  \<open>fork_drops_rmap_failure\<close> is the case it excludes. \<open>levels_ok\<close>: under an empty upper level entry no entry is
  present. \<open>others_ok\<close>: other CPUs keep the invariant and this CPU's locks while it waits. \<open>serves_pages\<close>: memory answers
  a miss with the page as earlier write-backs left it. Theorems on contents are for one CPU at a time.

  \<^bold>\<open>Not modelled.\<close> The victim cache and the other eviction algorithms, which are alternative configurations; counters,
  profiling and printing; memory replication; the memory and storage components; processes and system calls; the
  kernel core, drivers and the network, of which allocators, locks and messages are parameters. \<open>move_ptes\<close> and
  the zero fill marking of ranges are modelled but no theorem is stated on them.
\<close>

end
